theory Spec2Isabelle
  imports
    Main
    "HOL-Library.Word"
    "HOL-Library.Product_Lexorder"
    "HOL-Library.List_Lexorder"
    "HOL-Library.Char_ord"
begin

unbundle bit_operations_syntax

section \<open>Python values, errors and text\<close>

text \<open>
  The exceptions the two modules can raise. \<open>OtherError\<close> stands for a failure of an
  external collaborator (the ODBC driver, the SQL server, the file system of the data
  lake); its text only tells such failures apart.
\<close>

datatype pyerr = ValueError | KeyError | AttributeError | TypeError | OtherError string

text \<open>
  A naive \<open>datetime\<close>: year, month, day, hour, minute, second, microsecond. Python
  compares naive datetimes field by field in this order, which is the lexicographic order
  of the tuple.
\<close>

type_synonym datetime = "nat \<times> nat \<times> nat \<times> nat \<times> nat \<times> nat \<times> nat"

definition is_leap :: "nat \<Rightarrow> bool" where
  "is_leap y = (y mod 4 = 0 \<and> (y mod 100 \<noteq> 0 \<or> y mod 400 = 0))"

definition days_in_month :: "nat \<Rightarrow> nat \<Rightarrow> nat" where
  "days_in_month y m =
     (if m = 2 then (if is_leap y then 29 else 28)
      else if m = 4 \<or> m = 6 \<or> m = 9 \<or> m = 11 then 30 else 31)"

fun valid_datetime :: "datetime \<Rightarrow> bool" where
  "valid_datetime (y, m, d, hh, mi, ss, us) =
     (1 \<le> y \<and> y \<le> 9999 \<and> 1 \<le> m \<and> m \<le> 12 \<and> 1 \<le> d \<and> d \<le> days_in_month y m \<and>
      hh < 24 \<and> mi < 60 \<and> ss < 60 \<and> us < 1000000)"

subsection \<open>Decimal text\<close>

definition digit_char :: "nat \<Rightarrow> char" where
  "digit_char d = char_of (48 + d)"

definition is_digit :: "char \<Rightarrow> bool" where
  "is_digit c = (48 \<le> (of_char c :: nat) \<and> (of_char c :: nat) \<le> 57)"

definition digit_val :: "char \<Rightarrow> nat" where
  "digit_val c = of_char c - 48"

text \<open>\<open>pad k n\<close> is \<open>'%0kd' % n\<close> for \<open>n < 10 ^ k\<close>: the last \<open>k\<close> decimal digits.\<close>

fun pad :: "nat \<Rightarrow> nat \<Rightarrow> string" where
  "pad 0 n = []"
| "pad (Suc k) n = pad k (n div 10) @ [digit_char (n mod 10)]"

text \<open>A field of ASCII digits read as a number; \<open>None\<close> when it holds anything else.\<close>

definition parse_nat :: "string \<Rightarrow> nat option" where
  "parse_nat s =
     (if s \<noteq> [] \<and> list_all is_digit s
      then Some (foldl (\<lambda>a c. 10 * a + digit_val c) 0 s) else None)"

text \<open>\<open>str(n)\<close> for a Python int.\<close>

fun str_nat :: "nat \<Rightarrow> string" where
  "str_nat n = (if n < 10 then [digit_char n] else str_nat (n div 10) @ [digit_char (n mod 10)])"

declare str_nat.simps [simp del]

definition str_int :: "int \<Rightarrow> string" where
  "str_int i = (if i < 0 then CHR ''-'' # str_nat (nat (- i)) else str_nat (nat i))"

subsection \<open>Timestamps as text\<close>

text \<open>
  \<open>datetime.isoformat(sep)\<close>: \<open>YYYY-MM-DDTHH:MM:SS\<close>, followed by \<open>.ffffff\<close> when the
  microsecond is not zero.
\<close>

fun isoformat_sep :: "char \<Rightarrow> datetime \<Rightarrow> string" where
  "isoformat_sep sep (y, m, d, hh, mi, ss, us) =
     pad 4 y @ CHR ''-'' # pad 2 m @ CHR ''-'' # pad 2 d @ sep #
     pad 2 hh @ CHR '':'' # pad 2 mi @ CHR '':'' # pad 2 ss @
     (if us = 0 then [] else CHR ''.'' # pad 6 us)"

definition isoformat :: "datetime \<Rightarrow> string" where
  "isoformat t = isoformat_sep CHR ''T'' t"

text \<open>
  \<open>datetime.fromisoformat\<close> of CPython 3.11, for the texts that denote a naive timestamp.
  The parser reads a text as C reads a buffer that ends with a zero byte: \<open>ch s i\<close> is
  that byte beyond the end.
\<close>

definition ch :: "string \<Rightarrow> nat \<Rightarrow> char" where
  "ch s i = (if i < length s then s ! i else CHR 0x00)"

definition field :: "string \<Rightarrow> nat \<Rightarrow> nat \<Rightarrow> string" where
  "field s i j = take (j - i) (drop i s)"

text \<open>\<open>parse_digits\<close>: exactly \<open>k\<close> digits at position \<open>i\<close>.\<close>

definition digits_at :: "string \<Rightarrow> nat \<Rightarrow> nat \<Rightarrow> nat option" where
  "digits_at s i k =
     (if length (field s i (i + k)) = k then parse_nat (field s i (i + k)) else None)"

text \<open>
  A text with an ISO week date (\<open>W\<close> after the year) or with a UTC offset after the time
  denotes a value that the model does not have (a week date, an aware timestamp). The
  parser answers with this marker for them; no statement below is about such a text.
\<close>

definition outside_model :: pyerr where
  "outside_model = OtherError ''fromisoformat: week date or UTC offset''"

text \<open>
  \<open>parse_isoformat_date\<close>: \<open>YYYY-MM-DD\<close> or \<open>YYYYMMDD\<close>, read from the start of the
  text.
\<close>

definition parse_date :: "string \<Rightarrow> pyerr + (nat \<times> nat \<times> nat)" where
  "parse_date s =
     (case digits_at s 0 4 of
        None \<Rightarrow> Inl ValueError
      | Some y \<Rightarrow>
          (let uses_separator = (ch s 4 = CHR ''-'');
               i = (if uses_separator then 5 else 4)
           in if ch s i = CHR ''W'' then Inl outside_model
              else
                (case digits_at s i 2 of
                   None \<Rightarrow> Inl ValueError
                 | Some m \<Rightarrow>
                     if uses_separator \<and> ch s (i + 2) \<noteq> CHR ''-'' then Inl ValueError
                     else
                       (case digits_at s (if uses_separator then i + 3 else i + 2) 2 of
                          None \<Rightarrow> Inl ValueError
                        | Some d \<Rightarrow> Inr (y, m, d)))))"

text \<open>
  \<open>parse_hh_mm_ss_ff\<close>. The loop over hour, minute and second ends in one of three ways:
  it fails; it reaches the end \<open>e\<close> of the time part (with the flag whether the last
  character read was a real one); or it goes on to the fraction at position \<open>p\<close>.
\<close>

datatype hms = HFail | HDone "nat list" bool | HFrac "nat list" nat

fun hms_fields :: "string \<Rightarrow> nat \<Rightarrow> nat \<Rightarrow> nat \<Rightarrow> bool \<Rightarrow> nat list \<Rightarrow> hms" where
  "hms_fields t e 0 p has_separator vs = HFrac vs p"
| "hms_fields t e (Suc k) p has_separator vs =
     (case digits_at t p 2 of
        None \<Rightarrow> HFail
      | Some v \<Rightarrow>
          (let c = ch t (p + 2);
               hs = (if vs = [] then c = CHR '':'' else has_separator)
           in if e \<le> p + 3 then HDone (vs @ [v]) (c \<noteq> CHR 0x00)
              else if hs \<and> c = CHR '':'' then hms_fields t e k (p + 3) hs (vs @ [v])
              else if c = CHR ''.'' \<or> c = CHR '','' then HFrac (vs @ [v]) (p + 3)
              else if \<not> hs then hms_fields t e k (p + 2) hs (vs @ [v])
              else HFail))"

definition nth_or_zero :: "nat list \<Rightarrow> nat \<Rightarrow> nat" where
  "nth_or_zero vs i = (if i < length vs then vs ! i else 0)"

text \<open>
  The fraction: up to six digits are read and scaled to microseconds, further digits are
  skipped, and anything after them is an error.
\<close>

definition parse_fraction :: "string \<Rightarrow> nat \<Rightarrow> nat \<Rightarrow> (nat \<times> bool) option" where
  "parse_fraction t e p =
     (let k = min (e - p) 6
      in case digits_at t p k of
           None \<Rightarrow> None
         | Some v \<Rightarrow>
             Some (v * 10 ^ (6 - k),
                   ch t (p + k + length (takeWhile is_digit (drop (p + k) t))) \<noteq> CHR 0x00))"

text \<open>
  The values read, the microseconds, and whether something is left in the text after
  them; \<open>None\<close> when the time does not parse.
\<close>

definition parse_hms :: "string \<Rightarrow> nat \<Rightarrow> (nat list \<times> nat \<times> bool) option" where
  "parse_hms t e =
     (case hms_fields t e 3 0 True [] of
        HFail \<Rightarrow> None
      | HDone vs trailing \<Rightarrow> Some (vs, 0, trailing)
      | HFrac vs p \<Rightarrow>
          (case parse_fraction t e p of
             None \<Rightarrow> None
           | Some (us, trailing) \<Rightarrow> Some (vs, us, trailing)))"

definition is_offset_mark :: "char \<Rightarrow> bool" where
  "is_offset_mark c = (c = CHR ''Z'' \<or> c = CHR ''+'' \<or> c = CHR ''-'')"

text \<open>\<open>parse_isoformat_time\<close>: the time part, up to the first offset mark.\<close>

definition parse_time :: "string \<Rightarrow> pyerr + (nat \<times> nat \<times> nat \<times> nat)" where
  "parse_time t =
     (let e = length (takeWhile (\<lambda>c. \<not> is_offset_mark c) t)
      in case parse_hms t e of
           None \<Rightarrow> Inl ValueError
         | Some (vs, us, trailing) \<Rightarrow>
             if e < length t then Inl outside_model
             else if trailing then Inl ValueError
             else Inr (nth_or_zero vs 0, nth_or_zero vs 1, nth_or_zero vs 2, us))"

text \<open>
  \<open>datetime.fromisoformat\<close>: the date, then (after one separator character, whatever it
  is) the time, then the range checks of the \<open>datetime\<close> constructor.
\<close>

definition fromisoformat :: "string \<Rightarrow> pyerr + datetime" where
  "fromisoformat s =
     (let separator_location =
            (if length s = 7 then 7 else if ch s 4 = CHR ''-'' then 10 else 8)
      in case parse_date s of
           Inl e \<Rightarrow> Inl e
         | Inr (y, m, d) \<Rightarrow>
             (case (if separator_location < length s
                    then parse_time (drop (Suc separator_location) s)
                    else Inr (0, 0, 0, 0)) of
                Inl e \<Rightarrow> Inl e
              | Inr (hh, mi, ss, us) \<Rightarrow>
                  if valid_datetime (y, m, d, hh, mi, ss, us)
                  then Inr (y, m, d, hh, mi, ss, us) else Inl ValueError))"

subsection \<open>Cell values\<close>

text \<open>
  A cell of a DataFrame: an integer, a text, a timestamp, or a null (\<open>None\<close> in a column
  of objects, \<open>NaT\<close> in a column of timestamps). Floating-point cells are outside the
  model.
\<close>

datatype pyval = VInt int | VStr string | VTime datetime | VNone | VNaT

fun is_null :: "pyval \<Rightarrow> bool" where
  "is_null VNone = True"
| "is_null VNaT = True"
| "is_null _ = False"

fun is_int :: "pyval \<Rightarrow> bool" where
  "is_int (VInt n) = True"
| "is_int _ = False"

fun is_time :: "pyval \<Rightarrow> bool" where
  "is_time (VTime t) = True"
| "is_time VNaT = True"
| "is_time _ = False"

text \<open>
  \<open>str(v)\<close> of one cell: of an integer, of a text, of a \<open>Timestamp\<close> (date and time,
  separated by a blank), of \<open>None\<close> and of \<open>NaT\<close>.
\<close>

fun str_of :: "pyval \<Rightarrow> string" where
  "str_of (VInt n) = str_int n"
| "str_of (VStr s) = s"
| "str_of (VTime t) = isoformat_sep CHR '' '' t"
| "str_of VNone = ''None''"
| "str_of VNaT = ''NaT''"

section \<open>The interpreter's \<open>hash\<close>\<close>

text \<open>
  \<open>validate_checksum\<close> fingerprints a row with Python's built-in \<open>hash\<close>. What that
  function computes belongs to the interpreter, not to the repository; this section
  writes it down for CPython 3.11 on a 64-bit platform, for the cells of the model. The
  hash of a text is SipHash-1-3 keyed by the interpreter's hash secret, which every
  process draws afresh unless \<open>PYTHONHASHSEED\<close> fixes it. Texts are ASCII (one byte
  per character). The hashes of the other cells (nulls, timestamps) are left as a field
  of the interpreter, and so is the text that pandas gives to the cells of a column of
  timestamps: \<open>astype(str)\<close> chooses one format for the whole column (the date alone
  when every cell is at midnight).
\<close>

type_synonym u64 = "64 word"

record interp =
  hash_k0 :: u64
  hash_k1 :: u64
  hash_other :: "pyval \<Rightarrow> int"
  str_times :: "pyval list \<Rightarrow> string list"

definition rotl64 :: "u64 \<Rightarrow> nat \<Rightarrow> u64" where
  "rotl64 x b = push_bit b x OR drop_bit (64 - b) x"

type_synonym sipstate = "u64 \<times> u64 \<times> u64 \<times> u64"

definition half_round :: "u64 \<Rightarrow> u64 \<Rightarrow> u64 \<Rightarrow> u64 \<Rightarrow> nat \<Rightarrow> nat \<Rightarrow> sipstate" where
  "half_round a b c d s t =
     (let a1 = a + b; c1 = c + d;
          b1 = rotl64 b s XOR a1;
          d1 = rotl64 d t XOR c1
      in (rotl64 a1 32, b1, c1, d1))"

fun single_round :: "sipstate \<Rightarrow> sipstate" where
  "single_round (v0, v1, v2, v3) =
     (case half_round v0 v1 v2 v3 13 16 of
        (a0, a1, a2, a3) \<Rightarrow>
          (case half_round a2 a1 a0 a3 17 21 of
             (b2, b1, b0, b3) \<Rightarrow> (b0, b1, b2, b3)))"

text \<open>Up to eight bytes as a little-endian word.\<close>

fun le64 :: "string \<Rightarrow> u64" where
  "le64 [] = 0"
| "le64 (c # cs) = of_nat (of_char c) + push_bit 8 (le64 cs)"

fun absorb :: "sipstate \<Rightarrow> u64 \<Rightarrow> sipstate" where
  "absorb (v0, v1, v2, v3) m =
     (case single_round (v0, v1, v2, v3 XOR m) of
        (w0, w1, w2, w3) \<Rightarrow> (w0 XOR m, w1, w2, w3))"

fun sip_blocks :: "sipstate \<Rightarrow> string \<Rightarrow> sipstate \<times> string" where
  "sip_blocks v s =
     (if 8 \<le> length s then sip_blocks (absorb v (le64 (take 8 s))) (drop 8 s) else (v, s))"

declare sip_blocks.simps [simp del]

definition siphash13 :: "u64 \<Rightarrow> u64 \<Rightarrow> string \<Rightarrow> u64" where
  "siphash13 k0 k1 s =
     (case sip_blocks (k0 XOR 0x736f6d6570736575, k1 XOR 0x646f72616e646f6d,
                       k0 XOR 0x6c7967656e657261, k1 XOR 0x7465646279746573) s of
        (v, tail) \<Rightarrow>
          (case absorb v (push_bit 56 (of_nat (length s)) OR le64 tail) of
             (v0, v1, v2, v3) \<Rightarrow>
               (case single_round (single_round (single_round (v0, v1, v2 XOR 0xff, v3))) of
                  (w0, w1, w2, w3) \<Rightarrow> (w0 XOR w1) XOR (w2 XOR w3))))"

text \<open>A hash is never \<open>-1\<close>: CPython keeps that value for errors and returns \<open>-2\<close>.\<close>

definition fix_hash :: "int \<Rightarrow> int" where
  "fix_hash x = (if x = - 1 then - 2 else x)"

definition hash_str :: "u64 \<Rightarrow> u64 \<Rightarrow> string \<Rightarrow> int" where
  "hash_str k0 k1 s = (if s = [] then 0 else fix_hash (sint (siphash13 k0 k1 s)))"

text \<open>The hash of an int: its value modulo the Mersenne prime \<open>2^61 - 1\<close>, with its sign.\<close>

definition hash_int :: "int \<Rightarrow> int" where
  "hash_int n =
     (let r = \<bar>n\<bar> mod (2 ^ 61 - 1)
      in fix_hash (if n < 0 then - r else r))"

fun py_hash :: "interp \<Rightarrow> pyval \<Rightarrow> int" where
  "py_hash I (VInt n) = hash_int n"
| "py_hash I (VStr s) = hash_str (hash_k0 I) (hash_k1 I) s"
| "py_hash I v = hash_other I v"

text \<open>The hash of a tuple, from the hashes of its items (CPython's \<open>tuplehash\<close>).\<close>

definition tuple_lane :: "u64 \<Rightarrow> int \<Rightarrow> u64" where
  "tuple_lane acc h = rotl64 (acc + word_of_int h * 14029467366897019727) 31 * 11400714785074694791"

definition tuple_hash :: "int list \<Rightarrow> int" where
  "tuple_hash hs =
     (let acc = foldl tuple_lane 2870177450012600261 hs +
                (of_nat (length hs) XOR (2870177450012600261 XOR 3527539))
      in if acc = - 1 then 1546275796 else sint acc)"

text \<open>\<open>hash(tuple(row.values))\<close>: the fingerprint of a row.\<close>

definition fingerprint :: "interp \<Rightarrow> pyval list \<Rightarrow> int" where
  "fingerprint I row = tuple_hash (map (py_hash I) row)"

section \<open>DataFrames\<close>

text \<open>
  A DataFrame: its column labels and its rows, each row one cell per column. The frames
  the two modules receive are well formed: the labels are distinct and every row has a
  cell for every column.
\<close>

record dataframe =
  columns :: "string list"
  rows :: "pyval list list"

definition wf_frame :: "dataframe \<Rightarrow> bool" where
  "wf_frame df =
     (distinct (columns df) \<and> list_all (\<lambda>r. length r = length (columns df)) (rows df))"

text \<open>Every row has one cell per column.\<close>

definition rect :: "dataframe \<Rightarrow> bool" where
  "rect d = list_all (\<lambda>r. length r = length (columns d)) (rows d)"

fun index_of :: "'a \<Rightarrow> 'a list \<Rightarrow> nat option" where
  "index_of x [] = None"
| "index_of x (y # ys) = (if x = y then Some 0 else map_option Suc (index_of x ys))"

definition cell :: "pyval list \<Rightarrow> nat \<Rightarrow> pyval" where
  "cell r i = (if i < length r then r ! i else VNone)"

text \<open>\<open>df[c]\<close>: the cells of a column; \<open>KeyError\<close> when the frame has no such label.\<close>

definition get_column :: "dataframe \<Rightarrow> string \<Rightarrow> pyerr + pyval list" where
  "get_column df c =
     (case index_of c (columns df) of
        None \<Rightarrow> Inl KeyError
      | Some i \<Rightarrow> Inr (map (\<lambda>r. cell r i) (rows df)))"

text \<open>
  \<open>df[c] = vals\<close>: an existing column is overwritten in place, a new one is appended
  as the last column.
\<close>

definition set_column :: "dataframe \<Rightarrow> string \<Rightarrow> pyval list \<Rightarrow> dataframe" where
  "set_column df c vals =
     (case index_of c (columns df) of
        None \<Rightarrow>
          \<lparr>columns = columns df @ [c], rows = map (\<lambda>(r, v). r @ [v]) (zip (rows df) vals)\<rparr>
      | Some i \<Rightarrow>
          \<lparr>columns = columns df, rows = map (\<lambda>(r, v). r[i := v]) (zip (rows df) vals)\<rparr>)"

section \<open>data\_validation.py: MigrationValidator\<close>

definition validate_row_counts :: "int \<Rightarrow> int \<Rightarrow> bool" where
  "validate_row_counts source_count target_count = (source_count = target_count)"

text \<open>
  \<open>df['checksum'] = df.apply(lambda row: hash(tuple(row.values)), axis=1)\<close>: the
  fingerprint of every row, over all its cells.
\<close>

definition checksums :: "interp \<Rightarrow> dataframe \<Rightarrow> pyval list" where
  "checksums I df = map (\<lambda>r. VInt (fingerprint I r)) (rows df)"

text \<open>
  \<open>Series.astype(str)\<close>: cell by cell, except for a column of timestamps.
\<close>

definition astype_str :: "interp \<Rightarrow> pyval list \<Rightarrow> string list" where
  "astype_str I cs =
     (if cs \<noteq> [] \<and> list_all is_time cs then str_times I cs else map str_of cs)"

text \<open>\<open>df[key].astype(str) + '_' + df['checksum'].astype(str)\<close>, row by row.\<close>

definition row_keys :: "interp \<Rightarrow> pyval list \<Rightarrow> pyval list \<Rightarrow> string list" where
  "row_keys I ks cs = map (\<lambda>(k, c). k @ ''_'' @ c) (zip (astype_str I ks) (astype_str I cs))"

text \<open>
  One half of \<open>validate_checksum\<close>: the frame is given its \<open>checksum\<close> column, and the
  set of row keys is read from it. The frame after the assignment is returned as well,
  since the caller's object has changed.
\<close>

definition key_set :: "interp \<Rightarrow> dataframe \<Rightarrow> string \<Rightarrow> dataframe \<times> (pyerr + string set)" where
  "key_set I df key_column =
     (let df' = set_column df ''checksum'' (checksums I df)
      in (df',
          case get_column df' key_column of
            Inl e \<Rightarrow> Inl e
          | Inr ks \<Rightarrow>
              (case get_column df' ''checksum'' of
                 Inl e \<Rightarrow> Inl e
               | Inr cs \<Rightarrow> Inr (set (row_keys I ks cs)))))"

definition symmetric_difference :: "'a set \<Rightarrow> 'a set \<Rightarrow> 'a set" where
  "symmetric_difference A B = (A - B) \<union> (B - A)"

text \<open>
  \<open>validate_checksum\<close> returns its verdict; the model returns with it the two frames as
  the call leaves them. Every exception inside the \<open>try\<close> block becomes the verdict
  \<open>False\<close>. The two frames are two objects.
\<close>

definition validate_checksum ::
  "interp \<Rightarrow> dataframe \<Rightarrow> dataframe \<Rightarrow> string \<Rightarrow> bool \<times> dataframe \<times> dataframe" where
  "validate_checksum I source_df target_df key_column =
     (case key_set I source_df key_column of
        (source_df', Inl e) \<Rightarrow> (False, source_df', target_df)
      | (source_df', Inr source_set) \<Rightarrow>
          (case key_set I target_df key_column of
             (target_df', Inl e) \<Rightarrow> (False, source_df', target_df')
           | (target_df', Inr target_set) \<Rightarrow>
               (card (symmetric_difference source_set target_set) = 0, source_df', target_df')))"

text \<open>
  The call with one object passed as both frames: the second assignment then works on
  the frame that already has the first \<open>checksum\<close> column.
\<close>

definition validate_checksum_same :: "interp \<Rightarrow> dataframe \<Rightarrow> string \<Rightarrow> bool \<times> dataframe" where
  "validate_checksum_same I df key_column =
     (case key_set I df key_column of
        (df', Inl e) \<Rightarrow> (False, df')
      | (df', Inr source_set) \<Rightarrow>
          (case key_set I df' key_column of
             (df'', Inl e) \<Rightarrow> (False, df'')
           | (df'', Inr target_set) \<Rightarrow>
               (card (symmetric_difference source_set target_set) = 0, df'')))"

text \<open>The set \<open>diff\<close> that \<open>validate_checksum\<close> measures, when both key sets exist.\<close>

definition checksum_diff :: "interp \<Rightarrow> dataframe \<Rightarrow> dataframe \<Rightarrow> string \<Rightarrow> string set option" where
  "checksum_diff I source_df target_df key_column =
     (case (snd (key_set I source_df key_column), snd (key_set I target_df key_column)) of
        (Inr source_set, Inr target_set) \<Rightarrow> Some (symmetric_difference source_set target_set)
      | _ \<Rightarrow> None)"

text \<open>A schema is a dict from column name to type; only its keys are compared.\<close>

type_synonym schema = "(string \<times> string) list"

definition validate_schema :: "schema \<Rightarrow> schema \<Rightarrow> bool" where
  "validate_schema source_schema target_schema =
     (set (map fst source_schema) = set (map fst target_schema))"

definition null_count :: "dataframe \<Rightarrow> string \<Rightarrow> nat" where
  "null_count df c =
     (case get_column df c of Inl e \<Rightarrow> 0 | Inr cs \<Rightarrow> length (filter is_null cs))"

text \<open>
  \<open>df[critical_columns]\<close> raises \<open>KeyError\<close> when a listed column is missing, and
  \<open>validate_nulls\<close> has no handler for it.
\<close>

definition validate_nulls :: "dataframe \<Rightarrow> string list \<Rightarrow> pyerr + bool" where
  "validate_nulls df critical_columns =
     (if list_all (\<lambda>c. c \<in> set (columns df)) critical_columns
      then Inr (list_all (\<lambda>c. null_count df c = 0) critical_columns)
      else Inl KeyError)"

section \<open>migration\_pipeline.py: the watermark file\<close>

text \<open>
  The watermark file is a text file, absent (\<open>None\<close>) until the first write. A
  character is a code point below 256. Reading in text mode translates \<open>\r\n\<close> and \<open>\r\<close> to \<open>\n\<close>; iterating over the
  file gives its lines, each with its line end.
\<close>

text \<open>The characters that \<open>str.strip()\<close> removes, among the code points below 256.\<close>

definition is_space :: "char \<Rightarrow> bool" where
  "is_space c = ((of_char c :: nat) \<in> {9, 10, 11, 12, 13, 28, 29, 30, 31, 32, 133, 160})"

text \<open>\<open>s.strip()\<close>\<close>

definition strip :: "string \<Rightarrow> string" where
  "strip s = rev (dropWhile is_space (rev (dropWhile is_space s)))"

text \<open>\<open>s.split(c)\<close>: always at least one field.\<close>

fun split_on :: "char \<Rightarrow> string \<Rightarrow> string list" where
  "split_on c [] = [[]]"
| "split_on c (x # xs) =
     (if x = c then [] # split_on c xs
      else (case split_on c xs of [] \<Rightarrow> [[x]] | f # fs \<Rightarrow> (x # f) # fs))"

fun universal_newlines :: "string \<Rightarrow> string" where
  "universal_newlines [] = []"
| "universal_newlines [x] = (if x = CHR 0x0D then [CHR 0x0A] else [x])"
| "universal_newlines (x # y # zs) =
     (if x = CHR 0x0D then
        (if y = CHR 0x0A then CHR 0x0A # universal_newlines zs
         else CHR 0x0A # universal_newlines (y # zs))
      else x # universal_newlines (y # zs))"

text \<open>The lines of a text; \<open>cur\<close> holds the line being read.\<close>

fun split_lines :: "string \<Rightarrow> string \<Rightarrow> string list" where
  "split_lines cur [] = (if cur = [] then [] else [cur])"
| "split_lines cur (x # xs) =
     (if x = CHR 0x0A then (cur @ [x]) # split_lines [] xs else split_lines (cur @ [x]) xs)"

definition file_lines :: "string \<Rightarrow> string list" where
  "file_lines content = split_lines [] (universal_newlines content)"

text \<open>
  \<open>dict(line.strip().split('=') for line in f)\<close>: every line must give exactly two
  fields, or \<open>dict\<close> raises \<open>ValueError\<close>; a later record of a key replaces an earlier one.
\<close>

definition dict_of_lines :: "string list \<Rightarrow> pyerr + (string \<rightharpoonup> string)" where
  "dict_of_lines ls =
     (let fs = map (\<lambda>l. split_on CHR ''='' (strip l)) ls
      in if list_all (\<lambda>f. length f = 2) fs
         then Inr (map_of (rev (map (\<lambda>f. (f ! 0, f ! 1)) fs)))
         else Inl ValueError)"

definition sentinel :: datetime where
  "sentinel = (1900, 1, 1, 0, 0, 0, 0)"

definition get_watermark :: "string option \<Rightarrow> string \<Rightarrow> pyerr + datetime" where
  "get_watermark file table_name =
     (case file of
        None \<Rightarrow> Inr sentinel
      | Some content \<Rightarrow>
          (case dict_of_lines (file_lines content) of
             Inl e \<Rightarrow> Inl e
           | Inr watermarks \<Rightarrow>
               fromisoformat
                 (case watermarks table_name of None \<Rightarrow> ''1900-01-01'' | Some v \<Rightarrow> v)))"

text \<open>
  How an append to the watermark file ends: the record is written; or the file cannot be
  opened; or the write, the flush or the close fails after the first \<open>n\<close> characters of
  the record have reached the file.
\<close>

datatype write_outcome = Written | OpenFailed | Cut nat

text \<open>
  \<open>update_watermark\<close> never raises: whatever fails inside its \<open>try\<close> block is logged.
  Opening the file for appending creates it. A value without \<open>isoformat\<close> (anything but
  a timestamp or \<open>NaT\<close>) fails after the file was opened and before anything is written.
  The result is whether the success was logged, and the file.
\<close>

definition record_line :: "string \<Rightarrow> string \<Rightarrow> string" where
  "record_line table_name v = table_name @ ''='' @ v @ [CHR 0x0A]"

definition append_record :: "write_outcome \<Rightarrow> string \<Rightarrow> string \<Rightarrow> bool \<times> string option" where
  "append_record outcome content line =
     (case outcome of
        Written \<Rightarrow> (True, Some (content @ line))
      | Cut n \<Rightarrow> (False, Some (content @ take n line))
      | OpenFailed \<Rightarrow> (False, Some content))"

definition update_watermark ::
  "write_outcome \<Rightarrow> string option \<Rightarrow> string \<Rightarrow> pyval \<Rightarrow> bool \<times> string option" where
  "update_watermark outcome file table_name new_watermark =
     (if outcome = OpenFailed then (False, file)
      else
        (let content = (case file of None \<Rightarrow> [] | Some c \<Rightarrow> c)
         in case new_watermark of
              VTime t \<Rightarrow> append_record outcome content (record_line table_name (isoformat t))
            | VNaT \<Rightarrow> append_record outcome content (record_line table_name ''NaT'')
            | _ \<Rightarrow> (False, Some content)))"

section \<open>migration\_pipeline.py: extract, transform, load\<close>

text \<open>
  What the pipeline's collaborators answer during one run: the ODBC connection, the SQL
  server (\<open>pd.read_sql\<close>, given the table and the watermark parameter of the incremental
  query, or none for a full load), \<open>pd.to_datetime\<close>, the write of the Parquet file, the
  append to the watermark file, \<open>Series.max()\<close> where the column is not one of
  timestamps, and the clock.
\<close>

record env =
  connect_error :: "pyerr option"
  read_sql :: "string \<Rightarrow> datetime option \<Rightarrow> pyerr + dataframe"
  to_datetime :: "pyval list \<Rightarrow> pyval list"
  write_error :: "string \<Rightarrow> dataframe \<Rightarrow> pyerr option"
  watermark_write :: write_outcome
  max_other :: "pyval list \<Rightarrow> pyerr + pyval"
  utcnow_stamp :: datetime
  utcnow_batch :: datetime
  now :: datetime

text \<open>What a run logs and calls, in order.\<close>

datatype event =
    EvConnected
  | EvExtracted nat
  | EvNoNewData
  | EvTransformed
  | EvLoaded string
  | EvWatermarkUpdated
  | EvWatermarkFailed
  | EvCompleted
  | EvFailed pyerr
  | EvClosed

text \<open>What a run can change: the watermark file, the data lake, and the log.\<close>

record world =
  watermark_file :: "string option"
  lake :: "string \<rightharpoonup> dataframe"
  trace :: "event list"

definition log :: "world \<Rightarrow> event list \<Rightarrow> world" where
  "log w es = w\<lparr>trace := trace w @ es\<rparr>"

definition extract_data :: "env \<Rightarrow> world \<Rightarrow> string \<Rightarrow> bool \<Rightarrow> pyerr + dataframe" where
  "extract_data E w table_name incremental =
     (if incremental then
        (case get_watermark (watermark_file w) table_name of
           Inl e \<Rightarrow> Inl e
         | Inr watermark \<Rightarrow> read_sql E table_name (Some watermark))
      else read_sql E table_name None)"

text \<open>
  Column names: lower case, spaces to underscores, then every character that is not a
  word character removed. Names are ASCII; a byte above 127 is kept as it is.
\<close>

definition lower_char :: "char \<Rightarrow> char" where
  "lower_char c =
     (case map_of (zip ''ABCDEFGHIJKLMNOPQRSTUVWXYZ'' ''abcdefghijklmnopqrstuvwxyz'') c of
        None \<Rightarrow> c
      | Some l \<Rightarrow> l)"

definition is_word_char :: "char \<Rightarrow> bool" where
  "is_word_char c =
     (let n = (of_char c :: nat)
      in (48 \<le> n \<and> n \<le> 57) \<or> (65 \<le> n \<and> n \<le> 90) \<or> (97 \<le> n \<and> n \<le> 122) \<or> n = 95 \<or> 128 \<le> n)"

definition normalize_name :: "string \<Rightarrow> string" where
  "normalize_name s =
     filter is_word_char (map (\<lambda>c. if c = CHR '' '' then CHR ''_'' else c) (map lower_char s))"

text \<open>
  The dtype of a column is \<open>object\<close> unless its cells are integers, or timestamps and
  \<open>NaT\<close>.
\<close>

definition dtype_object :: "pyval list \<Rightarrow> bool" where
  "dtype_object cs = (\<not> list_all is_int cs \<and> \<not> list_all is_time cs)"

text \<open>
  One step of the loop over the columns: a column of dtype \<open>object\<close> is replaced by
  what \<open>pd.to_datetime(..., errors='ignore')\<close> returns for it, which is the column itself
  when it does not parse.
\<close>

definition coerce_column :: "env \<Rightarrow> dataframe \<Rightarrow> string \<Rightarrow> dataframe" where
  "coerce_column E df c =
     (case get_column df c of
        Inl e \<Rightarrow> df
      | Inr cs \<Rightarrow>
          if dtype_object cs \<and> length (to_datetime E cs) = length cs
          then set_column df c (to_datetime E cs) else df)"

text \<open>\<open>strftime\<close> with \<open>%Y%m%d%H%M%S\<close> and with \<open>%Y/%m/%d\<close>.\<close>

fun batch_id :: "datetime \<Rightarrow> string" where
  "batch_id (y, m, d, hh, mi, ss, us) = pad 4 y @ pad 2 m @ pad 2 d @ pad 2 hh @ pad 2 mi @ pad 2 ss"

fun date_path :: "datetime \<Rightarrow> string" where
  "date_path (y, m, d, hh, mi, ss, us) = pad 4 y @ ''/'' @ pad 2 m @ ''/'' @ pad 2 d"

text \<open>
  \<open>transform_for_synapse\<close> works on the frame it is given and returns that same object.
  When two columns get the same normalized name, \<open>df[col]\<close> is a frame, not a column,
  and \<open>df[col].dtype\<close> raises \<open>AttributeError\<close>.
\<close>

definition transform_for_synapse :: "env \<Rightarrow> dataframe \<Rightarrow> pyerr + dataframe" where
  "transform_for_synapse E df =
     (let cols = map normalize_name (columns df);
          df1 = df\<lparr>columns := cols\<rparr>
      in if \<not> distinct cols then Inl AttributeError
         else
           (let df2 = foldl (coerce_column E) df1 cols;
                n = length (rows df2);
                df3 = set_column df2 ''_ingestion_timestamp'' (replicate n (VTime (utcnow_stamp E)));
                df4 = set_column df3 ''_source_system'' (replicate n (VStr ''legacy_sql_server''));
                df5 = set_column df4 ''_migration_batch_id''
                        (replicate n (VStr (batch_id (utcnow_batch E))))
            in Inr df5))"

definition load_to_adls ::
  "env \<Rightarrow> world \<Rightarrow> dataframe \<Rightarrow> string \<Rightarrow> string \<Rightarrow> (pyerr + string) \<times> world" where
  "load_to_adls E w df table_name layer =
     (let file_path = layer @ ''/'' @ table_name @ ''/'' @ date_path (now E) @ ''/'' @
                      table_name @ ''.parquet''
      in case write_error E file_path df of
           Some e \<Rightarrow> (Inl e, w)
         | None \<Rightarrow> (Inr file_path, log (w\<lparr>lake := (lake w)(file_path \<mapsto> df)\<rparr>) [EvLoaded file_path]))"

text \<open>
  \<open>Series.max()\<close> of a column of timestamps: \<open>NaT\<close> is skipped, and a column of \<open>NaT\<close>
  only gives \<open>NaT\<close>. What pandas answers for any other column is the environment's.
\<close>

fun time_of :: "pyval \<Rightarrow> datetime option" where
  "time_of (VTime t) = Some t"
| "time_of _ = None"

definition greatest :: "'a::linorder list \<Rightarrow> 'a option" where
  "greatest xs = (case xs of [] \<Rightarrow> None | x # ys \<Rightarrow> Some (fold max ys x))"

definition series_max :: "env \<Rightarrow> pyval list \<Rightarrow> pyerr + pyval" where
  "series_max E cs =
     (if cs \<noteq> [] \<and> list_all is_time cs then
        (case greatest (List.map_filter time_of cs) of
           None \<Rightarrow> Inr VNaT
         | Some t \<Rightarrow> Inr (VTime t))
      else max_other E cs)"

section \<open>migration\_pipeline.py: migrate\_table\<close>

text \<open>
  The step after a successful load: \<open>df\<close> is the frame that \<open>transform_for_synapse\<close> has
  renamed in place, so the test is on the normalized names.
\<close>

definition advance_watermark ::
  "env \<Rightarrow> world \<Rightarrow> dataframe \<Rightarrow> string \<Rightarrow> bool \<Rightarrow> (pyerr + unit) \<times> world" where
  "advance_watermark E w df table_name incremental =
     (if incremental \<and> ''lastmodified'' \<in> set (columns df) then
        (case get_column df ''lastmodified'' of
           Inl e \<Rightarrow> (Inl e, w)
         | Inr cs \<Rightarrow>
             (case series_max E cs of
                Inl e \<Rightarrow> (Inl e, w)
              | Inr new_watermark \<Rightarrow>
                  (case update_watermark (watermark_write E) (watermark_file w) table_name
                          new_watermark of
                     (written, file) \<Rightarrow>
                       (Inr (),
                        log (w\<lparr>watermark_file := file\<rparr>)
                          [if written then EvWatermarkUpdated else EvWatermarkFailed]))))
      else (Inr (), w))"

text \<open>
  \<open>migrate_table\<close>: the result is \<open>Inr ()\<close> when the call returns and \<open>Inl e\<close> when it
  raises \<open>e\<close>. The connection, once open, is closed on every path.
\<close>

definition migrate_table :: "env \<Rightarrow> world \<Rightarrow> string \<Rightarrow> bool \<Rightarrow> (pyerr + unit) \<times> world" where
  "migrate_table E w table_name incremental =
     (case connect_error E of
        Some e \<Rightarrow> (Inl e, log w [EvFailed e])
      | None \<Rightarrow>
          (let w1 = log w [EvConnected]
           in case extract_data E w1 table_name incremental of
                Inl e \<Rightarrow> (Inl e, log w1 [EvFailed e, EvClosed])
              | Inr df \<Rightarrow>
                  (let w2 = log w1 [EvExtracted (length (rows df))]
                   in if length (rows df) = 0 then (Inr (), log w2 [EvNoNewData, EvClosed])
                      else
                        (case transform_for_synapse E df of
                           Inl e \<Rightarrow> (Inl e, log w2 [EvFailed e, EvClosed])
                         | Inr df_transformed \<Rightarrow>
                             (case load_to_adls E (log w2 [EvTransformed]) df_transformed
                                     table_name ''bronze'' of
                                (Inl e, w3) \<Rightarrow> (Inl e, log w3 [EvFailed e, EvClosed])
                              | (Inr file_path, w3) \<Rightarrow>
                                  (case advance_watermark E w3 df_transformed table_name
                                          incremental of
                                     (Inl e, w4) \<Rightarrow> (Inl e, log w4 [EvFailed e, EvClosed])
                                   | (Inr u, w4) \<Rightarrow> (Inr (), log w4 [EvCompleted, EvClosed])))))))"

section \<open>Notions used in the statements\<close>

text \<open>
  A table name that the record format \<open>name=timestamp\<close> can carry: no \<open>=\<close>, no line
  break, no white space in front (\<open>strip\<close> would remove it from the record's key).
\<close>

definition plain_name :: "string \<Rightarrow> bool" where
  "plain_name t =
     (CHR ''='' \<notin> set t \<and> CHR 0x0A \<notin> set t \<and> CHR 0x0D \<notin> set t \<and> (t = [] \<or> \<not> is_space (hd t)))"

text \<open>A watermark file whose last line, if it has one, is ended by a line feed.\<close>

definition complete_log :: "string option \<Rightarrow> bool" where
  "complete_log file = (case file of None \<Rightarrow> True | Some c \<Rightarrow> c = [] \<or> last c = CHR 0x0A)"

text \<open>The dict that \<open>get_watermark\<close> builds from the file; empty when there is no file.\<close>

definition read_log :: "string option \<Rightarrow> pyerr + (string \<rightharpoonup> string)" where
  "read_log file = (case file of None \<Rightarrow> Inr Map.empty | Some c \<Rightarrow> dict_of_lines (file_lines c))"


text \<open>
  A sequence of calls \<open>update_watermark(t, ts)\<close>, each with the way its append ends,
  applied to a watermark file; and what the specification says a read returns
  afterwards: the timestamp of the last successful call for the table, or the sentinel.
\<close>

definition apply_sets ::
  "string option \<Rightarrow> (string \<times> datetime \<times> write_outcome) list \<Rightarrow> string option" where
  "apply_sets file ops = foldl (\<lambda>f (t, ts, oc). snd (update_watermark oc f t (VTime ts))) file ops"

definition last_set :: "(string \<times> datetime \<times> write_outcome) list \<Rightarrow> string \<Rightarrow> datetime" where
  "last_set ops table_name =
     foldl (\<lambda>acc (t, ts, oc). if oc = Written \<and> t = table_name then ts else acc) sentinel ops"

text \<open>A call whose append, if it failed, left nothing of its record in the file.\<close>

fun no_fragment :: "write_outcome \<Rightarrow> bool" where
  "no_fragment Written = True"
| "no_fragment OpenFailed = True"
| "no_fragment (Cut n) = (n = 0)"

text \<open>
  The change-tracking cells of an extracted frame: the column that the transformer will
  call \<open>lastmodified\<close>.
\<close>

definition change_values :: "dataframe \<Rightarrow> pyval list" where
  "change_values df =
     (case get_column (df\<lparr>columns := map normalize_name (columns df)\<rparr>) ''lastmodified'' of
        Inl e \<Rightarrow> []
      | Inr cs \<Rightarrow> cs)"

fun changed_after :: "datetime \<Rightarrow> pyval \<Rightarrow> bool" where
  "changed_after t (VTime x) = (valid_datetime x \<and> t < x)"
| "changed_after t _ = False"

text \<open>
  The contract of the source for the incremental query \<open>WHERE LastModified > ?\<close>: the
  frame it returns is well formed and every change-tracking cell in it is a timestamp
  after the parameter.
\<close>

definition honours_watermark :: "env \<Rightarrow> string \<Rightarrow> bool" where
  "honours_watermark E table_name =
     (\<forall>t df. read_sql E table_name (Some t) = Inr df \<longrightarrow>
        wf_frame df \<and> list_all (changed_after t) (change_values df))"

text \<open>A sequence of runs, each with its environment, table and mode.\<close>

definition run_all :: "world \<Rightarrow> (env \<times> string \<times> bool) list \<Rightarrow> world" where
  "run_all w runs = foldl (\<lambda>w (E, t, inc). snd (migrate_table E w t inc)) w runs"

text \<open>Where \<open>load_to_adls\<close> writes a table of the bronze layer.\<close>

definition bronze_path :: "env \<Rightarrow> string \<Rightarrow> string" where
  "bronze_path E table_name =
     ''bronze'' @ ''/'' @ table_name @ ''/'' @ date_path (now E) @ ''/'' @ table_name @ ''.parquet''"

section \<open>Example collaborators\<close>

text \<open>
  A source table with the columns \<open>Id\<close> and \<open>LastModified\<close> that answers the incremental
  query with the rows changed after the watermark, and a run's environment in which
  nothing fails.
\<close>

definition example_source :: "pyval list list \<Rightarrow> string \<Rightarrow> datetime option \<Rightarrow> pyerr + dataframe" where
  "example_source rs table_name watermark =
     Inr \<lparr>columns = [''Id'', ''LastModified''],
          rows = (case watermark of
                    None \<Rightarrow> rs
                  | Some t \<Rightarrow> filter (\<lambda>r. case cell r 1 of VTime x \<Rightarrow> t < x | _ \<Rightarrow> False) rs)\<rparr>"

definition example_env :: "(string \<Rightarrow> datetime option \<Rightarrow> pyerr + dataframe) \<Rightarrow> env" where
  "example_env src =
     \<lparr>connect_error = None, read_sql = src, to_datetime = (\<lambda>cs. cs),
      write_error = (\<lambda>file_path df. None), watermark_write = Written,
      max_other = (\<lambda>cs. Inl TypeError),
      utcnow_stamp = (2024, 6, 1, 12, 0, 0, 0), utcnow_batch = (2024, 6, 1, 12, 0, 1, 0),
      now = (2024, 6, 1, 14, 0, 1, 0)\<rparr>"

definition empty_world :: world where
  "empty_world = \<lparr>watermark_file = None, lake = Map.empty, trace = []\<rparr>"

section \<open>Evaluating the model on concrete inputs\<close>

lemma digit_char_simps:
  "digit_char 0 = CHR ''0''" "digit_char 1 = CHR ''1''" "digit_char (Suc 0) = CHR ''1''"
  "digit_char 2 = CHR ''2''" "digit_char 3 = CHR ''3''" "digit_char 4 = CHR ''4''"
  "digit_char 5 = CHR ''5''" "digit_char 6 = CHR ''6''" "digit_char 7 = CHR ''7''"
  "digit_char 8 = CHR ''8''" "digit_char 9 = CHR ''9''"
  by code_simp+

lemma str_nat_numeral:
  "str_nat (numeral k) =
     (if numeral k < (10::nat) then [digit_char (numeral k)]
      else str_nat (numeral k div 10) @ [digit_char (numeral k mod 10)])"
  by (rule str_nat.simps)

lemma str_nat_small: "str_nat 0 = ''0''" "str_nat 1 = ''1''" "str_nat (Suc 0) = ''1''"
  by (subst str_nat.simps, simp add: digit_char_simps)+

lemma pad_numeral:
  "pad (numeral k) n = pad (pred_numeral k) (n div 10) @ [digit_char (n mod 10)]"
  by (simp only: numeral_eq_Suc [of k] pad.simps)

lemmas text_eval = str_int_def digit_char_simps str_nat_numeral str_nat_small pad_numeral

lemmas hash_eval = fingerprint_def tuple_hash_def tuple_lane_def hash_int_def hash_str_def
  fix_hash_def siphash13_def rotl64_def half_round_def

lemmas frame_eval = get_column_def set_column_def cell_def checksums_def row_keys_def astype_str_def
  key_set_def symmetric_difference_def validate_checksum_def null_count_def

section \<open>Decimal text and timestamps\<close>

lemma digit_val_digit_char: "d < 10 \<Longrightarrow> digit_val (digit_char d) = d"
  by (simp add: digit_val_def digit_char_def)

lemma is_digit_digit_char: "d < 10 \<Longrightarrow> is_digit (digit_char d)"
  by (simp add: is_digit_def digit_char_def)

lemma length_pad: "length (pad k n) = k"
  by (induction k arbitrary: n) simp_all

lemma pad_digits: "list_all is_digit (pad k n)"
  by (induction k arbitrary: n) (simp_all add: is_digit_digit_char)

lemma foldl_pad:
  "foldl (\<lambda>a c. 10 * a + digit_val c) a (pad k n) = a * 10 ^ k + n mod 10 ^ k"
proof (induction k arbitrary: n)
  case 0
  then show ?case by simp
next
  case (Suc k)
  let ?f = "\<lambda>a c. 10 * a + digit_val c"
  have split: "n mod (10 * 10 ^ k) = 10 * (n div 10 mod 10 ^ k) + n mod 10"
    by (rule mod_mult2_eq)
  have "foldl ?f a (pad (Suc k) n) = 10 * foldl ?f a (pad k (n div 10)) + n mod 10"
    by (simp add: digit_val_digit_char)
  also have "\<dots> = 10 * (a * 10 ^ k + n div 10 mod 10 ^ k) + n mod 10"
    by (simp only: Suc.IH)
  also have "\<dots> = a * 10 ^ Suc k + n mod 10 ^ Suc k"
    using split by (simp add: algebra_simps)
  finally show ?case .
qed

lemma parse_nat_pad: "0 < k \<Longrightarrow> n < 10 ^ k \<Longrightarrow> parse_nat (pad k n) = Some n"
  by (cases k) (simp_all add: parse_nat_def pad_digits [of "Suc _", simplified] foldl_pad [of 0 "Suc _", simplified] is_digit_digit_char)

lemma days_in_month_le: "days_in_month y m \<le> 31"
  by (simp add: days_in_month_def)

lemma digits_at_pad:
  assumes "length a = i" "0 < k" "n < 10 ^ k"
  shows "digits_at (a @ pad k n @ r) i k = Some n"
proof -
  have "field (a @ pad k n @ r) i (i + k) = pad k n"
    using assms(1) by (simp add: field_def length_pad)
  then show ?thesis
    using assms(2,3) by (simp add: digits_at_def length_pad parse_nat_pad)
qed

lemma ch_at: "length a = i \<Longrightarrow> ch (a @ c # r) i = c"
  by (auto simp: ch_def nth_append)

lemma ch_end: "length a = i \<Longrightarrow> ch a i = CHR 0x00"
  by (auto simp: ch_def)

lemma ch_pad: "length a = i \<Longrightarrow> 0 < k \<Longrightarrow> is_digit (ch (a @ pad k n @ r) i)"
proof -
  assume a: "length a = i" and k: "0 < k"
  obtain j where j: "k = Suc j" using k by (cases k) auto
  have "pad k n \<noteq> []" using j by simp
  then obtain x xs where x: "pad k n = x # xs" by (cases "pad k n") auto
  have "is_digit x"
    using pad_digits [of k n] by (simp add: x)
  then show ?thesis
    using a by (auto simp: ch_def x nth_append)
qed

lemma parse_date_isoformat:
  assumes "y < 10000" "m < 100" "d < 100"
  shows "parse_date (pad 4 y @ CHR ''-'' # pad 2 m @ CHR ''-'' # pad 2 d @ r) = Inr (y, m, d)"
proof -
  let ?s = "pad 4 y @ CHR ''-'' # pad 2 m @ CHR ''-'' # pad 2 d @ r"
  have y: "digits_at ?s 0 4 = Some y"
    using digits_at_pad [of "[]" 0 4 y] assms(1) by simp
  have c4: "ch ?s 4 = CHR ''-''"
    using ch_at [of "pad 4 y" 4] by (simp add: length_pad)
  have "is_digit (ch ((pad 4 y @ ''-'') @ pad 2 m @ CHR ''-'' # pad 2 d @ r) 5)"
    by (rule ch_pad) (simp_all add: length_pad)
  then have c5: "ch ?s 5 \<noteq> CHR ''W''"
    by (auto simp: is_digit_def)
  have m: "digits_at ?s 5 2 = Some m"
    using digits_at_pad [of "pad 4 y @ ''-''" 5 2 m "CHR ''-'' # pad 2 d @ r"] assms(2)
    by (simp add: length_pad)
  have c7: "ch ?s 7 = CHR ''-''"
    using ch_at [of "pad 4 y @ CHR ''-'' # pad 2 m" 7 "CHR ''-''" "pad 2 d @ r"]
    by (simp add: length_pad)
  have d: "digits_at ?s 8 2 = Some d"
    using digits_at_pad [of "pad 4 y @ CHR ''-'' # pad 2 m @ ''-''" 8 2 d r] assms(3)
    by (simp add: length_pad)
  show ?thesis
    unfolding parse_date_def y using c4 c5 m c7 d by (simp add: Let_def)
qed

lemma not_offset_mark_digit: "is_digit c \<Longrightarrow> \<not> is_offset_mark c"
  by (auto simp: is_digit_def is_offset_mark_def)

lemma takeWhile_all: "\<forall>c \<in> set t. P c \<Longrightarrow> takeWhile P t = t"
  by (induction t) auto

lemma pad_set: "c \<in> set (pad k n) \<Longrightarrow> is_digit c"
  using pad_digits [of k n] by (simp add: list_all_iff)

lemma hms_fields_colons:
  assumes "digits_at t 0 2 = Some hh" "ch t 2 = CHR '':''"
    and "digits_at t 3 2 = Some mi" "ch t 5 = CHR '':''"
    and "digits_at t 6 2 = Some ss" "6 < e"
  shows "hms_fields t e 3 0 True [] =
     (if e \<le> 9 then HDone [hh, mi, ss] (ch t 8 \<noteq> CHR 0x00)
      else if ch t 8 = CHR '':'' \<or> ch t 8 = CHR ''.'' \<or> ch t 8 = CHR '','' then HFrac [hh, mi, ss] 9
      else HFail)"
proof -
  have s3: "hms_fields t e (Suc 0) 6 True [hh, mi] =
     (if e \<le> 9 then HDone [hh, mi, ss] (ch t 8 \<noteq> CHR 0x00)
      else if ch t 8 = CHR '':'' \<or> ch t 8 = CHR ''.'' \<or> ch t 8 = CHR '','' then HFrac [hh, mi, ss] 9
      else HFail)"
    using assms(5) by (simp add: Let_def)
  have s2: "hms_fields t e (Suc (Suc 0)) 3 True [hh] = hms_fields t e (Suc 0) 6 True [hh, mi]"
    using assms(3,4,6) by (simp add: Let_def)
  have c2: "ch t (Suc (Suc 0)) = CHR '':''"
    using assms(2) by (simp add: numeral_2_eq_2)
  have s1: "hms_fields t e (Suc (Suc (Suc 0))) 0 True [] = hms_fields t e (Suc (Suc 0)) 3 True [hh]"
    using assms(1,6) c2 by (simp add: Let_def)
  have "hms_fields t e 3 0 True [] = hms_fields t e (Suc (Suc (Suc 0))) 0 True []"
    by (simp only: numeral_3_eq_3)
  with s1 s2 s3 show ?thesis by simp
qed

lemma parse_time_isoformat:
  assumes "hh < 100" "mi < 100" "ss < 100" "us < 1000000"
  shows "parse_time (pad 2 hh @ CHR '':'' # pad 2 mi @ CHR '':'' # pad 2 ss @
           (if us = 0 then [] else CHR ''.'' # pad 6 us)) = Inr (hh, mi, ss, us)"
proof -
  define f where "f = (if us = 0 then [] else CHR ''.'' # pad 6 us)"
  define t where "t = pad 2 hh @ CHR '':'' # pad 2 mi @ CHR '':'' # pad 2 ss @ f"
  have fset: "\<forall>c \<in> set f. \<not> is_offset_mark c"
    using not_offset_mark_digit pad_set by (auto simp: f_def is_offset_mark_def)
  have marks: "\<forall>c \<in> set t. \<not> is_offset_mark c"
    using not_offset_mark_digit pad_set fset by (auto simp: t_def is_offset_mark_def)
  have e: "length (takeWhile (\<lambda>c. \<not> is_offset_mark c) t) = length t"
    by (simp only: takeWhile_all [OF marks])
  have h: "digits_at t 0 2 = Some hh"
    unfolding t_def using digits_at_pad [of "[]" 0 2 hh] assms(1) by simp
  have c2: "ch t 2 = CHR '':''"
    unfolding t_def using ch_at [of "pad 2 hh" 2] by (simp add: length_pad)
  have m: "digits_at t 3 2 = Some mi"
    unfolding t_def
    using digits_at_pad [of "pad 2 hh @ '':''" 3 2 mi "CHR '':'' # pad 2 ss @ f"] assms(2)
    by (simp add: length_pad)
  have c5: "ch t 5 = CHR '':''"
    unfolding t_def
    using ch_at [of "pad 2 hh @ CHR '':'' # pad 2 mi" 5 "CHR '':''" "pad 2 ss @ f"]
    by (simp add: length_pad)
  have sd: "digits_at t 6 2 = Some ss"
    unfolding t_def
    using digits_at_pad [of "pad 2 hh @ CHR '':'' # pad 2 mi @ '':''" 6 2 ss f] assms(3)
    by (simp add: length_pad)
  have len: "length t = 8 + length f"
    by (simp add: t_def length_pad)
  have fields: "hms_fields t (length t) 3 0 True [] =
     (if length t \<le> 9 then HDone [hh, mi, ss] (ch t 8 \<noteq> CHR 0x00)
      else if ch t 8 = CHR '':'' \<or> ch t 8 = CHR ''.'' \<or> ch t 8 = CHR '','' then HFrac [hh, mi, ss] 9
      else HFail)"
    by (rule hms_fields_colons [OF h c2 m c5 sd]) (simp add: len)
  have "parse_time t = Inr (hh, mi, ss, us)"
  proof (cases "us = 0")
    case True
    then have l8: "length t = 8"
      by (simp add: len f_def)
    then have c8: "ch t 8 = CHR 0x00"
      by (simp add: ch_def)
    show ?thesis
      unfolding parse_time_def e Let_def parse_hms_def fields
      using l8 c8 True by (simp add: nth_or_zero_def)
  next
    case False
    then have l15: "length t = 15"
      by (simp add: len f_def length_pad)
    have tf: "t = (pad 2 hh @ CHR '':'' # pad 2 mi @ CHR '':'' # pad 2 ss) @ CHR ''.'' # pad 6 us"
      using False by (simp add: t_def f_def)
    have c8: "ch t 8 = CHR ''.''"
      unfolding tf by (rule ch_at) (simp add: length_pad)
    have tu: "t = (pad 2 hh @ CHR '':'' # pad 2 mi @ CHR '':'' # pad 2 ss @ ''.'') @ pad 6 us @ []"
      using False by (simp add: t_def f_def)
    have u: "digits_at t 9 6 = Some us"
      unfolding tu using assms(4) by (intro digits_at_pad) (simp_all add: length_pad)
    have c15: "ch t 15 = CHR 0x00"
      using l15 by (simp add: ch_def)
    have dr: "drop 15 t = []"
      using l15 by simp
    have pf: "parse_fraction t 15 9 = Some (us, False)"
      using u c15 dr by (simp add: parse_fraction_def Let_def)
    show ?thesis
      unfolding parse_time_def e Let_def parse_hms_def fields
      using l15 c8 pf by (simp add: nth_or_zero_def)
  qed
  then show ?thesis
    by (simp add: t_def f_def)
qed

lemma take_prefix: "length a = n \<Longrightarrow> take n (a @ r) = a"
  by simp

lemma drop_prefix: "length a = n \<Longrightarrow> drop (Suc n) (a @ c # r) = r"
  by simp

lemma fromisoformat_isoformat:
  assumes "valid_datetime t"
  shows "fromisoformat (isoformat t) = Inr t"
proof -
  obtain y m d hh mi ss us where t: "t = (y, m, d, hh, mi, ss, us)"
    by (cases t) auto
  define tm where "tm = pad 2 hh @ CHR '':'' # pad 2 mi @ CHR '':'' # pad 2 ss @
           (if us = 0 then [] else CHR ''.'' # pad 6 us)"
  let ?date = "pad 4 y @ CHR ''-'' # pad 2 m @ CHR ''-'' # pad 2 d"
  from assms t have b: "y < 10000" "m < 100" "d < 100" "hh < 100" "mi < 100" "ss < 100"
      "us < 1000000"
    using days_in_month_le [of y m] by auto
  have iso: "isoformat t = ?date @ CHR ''T'' # tm"
    by (simp add: t isoformat_def tm_def)
  have iso': "isoformat t = pad 4 y @ CHR ''-'' # pad 2 m @ CHR ''-'' # pad 2 d @ CHR ''T'' # tm"
    by (simp add: iso)
  have ld: "length ?date = 10"
    by (simp add: length_pad)
  have pd: "parse_date (isoformat t) = Inr (y, m, d)"
    unfolding iso' by (rule parse_date_isoformat [OF b(1,2,3)])
  have c4: "ch (isoformat t) 4 = CHR ''-''"
    unfolding iso' using ch_at [of "pad 4 y" 4] by (simp add: length_pad)
  have "drop (Suc 10) (isoformat t) = tm"
    unfolding iso by (rule drop_prefix [OF ld])
  then have dr: "drop 11 (isoformat t) = tm"
    by simp
  have "length (isoformat t) = length ?date + Suc (length tm)"
    unfolding iso by (simp only: length_append list.size)
  then have ln: "10 < length (isoformat t)" "length (isoformat t) \<noteq> 7"
    unfolding ld by simp_all
  have pt: "parse_time tm = Inr (hh, mi, ss, us)"
    unfolding tm_def by (rule parse_time_isoformat [OF b(4,5,6,7)])
  show ?thesis
    unfolding fromisoformat_def Let_def pd
    using assms ln c4 dr pt by (simp add: t del: valid_datetime.simps)
qed

lemmas iso_eval = fromisoformat_def parse_date_def parse_time_def parse_hms_def parse_fraction_def
  digits_at_def parse_nat_def field_def ch_def is_digit_def digit_val_def nth_or_zero_def
  is_offset_mark_def days_in_month_def is_leap_def numeral_3_eq_3 outside_model_def
  isoformat_def

lemma fromisoformat_sentinel: "fromisoformat ''1900-01-01'' = Inr sentinel"
  by (simp add: iso_eval sentinel_def)

lemma fromisoformat_date:
  assumes "valid_datetime (y, m, d, hh, mi, ss, us)"
  shows "fromisoformat (take 10 (isoformat (y, m, d, hh, mi, ss, us))) = Inr (y, m, d, 0, 0, 0, 0)"
proof -
  let ?date = "pad 4 y @ CHR ''-'' # pad 2 m @ CHR ''-'' # pad 2 d"
  from assms have b: "y < 10000" "m < 100" "d < 100"
    using days_in_month_le [of y m] by auto
  have ld: "length ?date = 10"
    by (simp add: length_pad)
  have "take 10 (?date @ CHR ''T'' # r) = ?date" for r
    by (rule take_prefix [OF ld])
  then have tk: "take 10 (isoformat (y, m, d, hh, mi, ss, us)) = ?date @ []"
    by (simp add: isoformat_def)
  have pd: "parse_date (?date @ []) = Inr (y, m, d)"
    using parse_date_isoformat [OF b, of "[]"] by simp
  have c4: "ch (?date @ []) 4 = CHR ''-''"
    using ch_at [of "pad 4 y" 4] by (simp add: length_pad)
  show ?thesis
    unfolding tk fromisoformat_def Let_def pd
    using assms c4 ld by simp
qed

subsection \<open>Lines of the watermark file\<close>

lemma universal_newlines_Cons: "x \<noteq> CHR 0x0D \<Longrightarrow> universal_newlines (x # s) = x # universal_newlines s"
  by (cases s) simp_all

lemma universal_newlines_id: "CHR 0x0D \<notin> set s \<Longrightarrow> universal_newlines s = s"
  by (induction s) (auto simp: universal_newlines_Cons)

lemma universal_newlines_append:
  "universal_newlines (a @ CHR 0x0A # b) = universal_newlines (a @ [CHR 0x0A]) @ universal_newlines b"
proof (induction a rule: universal_newlines.induct)
  case 1
  show ?case by (simp add: universal_newlines_Cons)
next
  case (2 x)
  show ?case by (simp add: universal_newlines_Cons)
next
  case (3 x y zs)
  then show ?case by (cases zs) (auto simp: universal_newlines_Cons)
qed

lemma universal_newlines_ends:
  "\<exists>z. universal_newlines (a @ [CHR 0x0A]) = z @ [CHR 0x0A]"
proof (induction a rule: universal_newlines.induct)
  case 1
  show ?case by simp
next
  case (2 x)
  show ?case by simp
next
  case (3 x y zs)
  then show ?case by (cases zs) auto
qed

lemma split_lines_line:
  "CHR 0x0A \<notin> set l \<Longrightarrow> split_lines cur (l @ CHR 0x0A # r) = (cur @ l @ [CHR 0x0A]) # split_lines [] r"
  by (induction l arbitrary: cur) auto


lemma split_lines_append:
  "split_lines cur (a @ CHR 0x0A # b) = split_lines cur (a @ [CHR 0x0A]) @ split_lines [] b"
  by (induction a arbitrary: cur) simp_all

lemma file_lines_append_line:
  assumes "content = [] \<or> last content = CHR 0x0A"
    and "CHR 0x0A \<notin> set l" and "CHR 0x0D \<notin> set l"
  shows "file_lines (content @ l @ [CHR 0x0A]) = file_lines content @ [l @ [CHR 0x0A]]"
proof (cases "content = []")
  case True
  then show ?thesis
    using assms split_lines_line [of l "[]" "[]"]
    by (simp add: file_lines_def universal_newlines_id)
next
  case False
  with assms obtain a where a: "content = a @ [CHR 0x0A]"
    by (metis append_butlast_last_id)
  obtain z where z: "universal_newlines (a @ [CHR 0x0A]) = z @ [CHR 0x0A]"
    using universal_newlines_ends by blast
  have "universal_newlines (content @ l @ [CHR 0x0A]) = z @ CHR 0x0A # l @ [CHR 0x0A]"
    using universal_newlines_append [of a "l @ [CHR 0x0A]"] assms(2,3)
    by (simp add: a z universal_newlines_id)
  then show ?thesis
    using assms(2) split_lines_append [of "[]" z "l @ [CHR 0x0A]"] split_lines_line [of l "[]" "[]"]
    by (simp add: file_lines_def a z)
qed


subsection \<open>Records of the watermark file\<close>

lemma strip_line:
  assumes "s \<noteq> []" "\<not> is_space (hd s)" "\<not> is_space (last s)"
  shows "strip (s @ [CHR 0x0A]) = s"
proof -
  from assms(1) obtain x xs where s: "s = x # xs" by (cases s) auto
  from assms(1) obtain ys y where s': "s = ys @ [y]" by (metis append_butlast_last_id)
  have 1: "dropWhile is_space (s @ [CHR 0x0A]) = s @ [CHR 0x0A]"
    using assms(2) by (simp add: s)
  have 2: "dropWhile is_space (rev (s @ [CHR 0x0A])) = rev s"
    using assms(3) by (simp add: s' is_space_def)
  show ?thesis
    unfolding strip_def 1 2 by simp
qed

lemma split_on_notin: "c \<notin> set s \<Longrightarrow> split_on c s = [s]"
  by (induction s) auto

lemma split_on_append: "c \<notin> set a \<Longrightarrow> split_on c (a @ c # b) = a # split_on c b"
  by (induction a) auto

lemma split_on_nonempty: "split_on c s \<noteq> []"
  by (induction s) (auto split: list.splits)

lemma length_split_on: "length (split_on c s) = Suc (count_list s c)"
  using split_on_nonempty [of c]
  by (induction s) (auto split: list.splits)

lemma dict_of_lines_snoc:
  "dict_of_lines (ls @ [l]) =
     (case dict_of_lines ls of
        Inl e \<Rightarrow> Inl e
      | Inr d \<Rightarrow>
          if length (split_on CHR ''='' (strip l)) = 2
          then Inr (d(split_on CHR ''='' (strip l) ! 0 \<mapsto> split_on CHR ''='' (strip l) ! 1))
          else Inl ValueError)"
  by (simp add: dict_of_lines_def Let_def)

lemma isoformat_chars:
  "set (isoformat t) \<subseteq> Collect is_digit \<union> {CHR ''-'', CHR ''T'', CHR '':'', CHR ''.''}"
proof -
  have p: "set (pad k n) \<subseteq> Collect is_digit" for k n
    using pad_digits [of k n] by (auto simp: list_all_iff)
  obtain y m d hh mi ss us where t: "t = (y, m, d, hh, mi, ss, us)"
    by (cases t) auto
  show ?thesis
    unfolding t isoformat_def isoformat_sep.simps
    using p [of 4 y] p [of 2 m] p [of 2 d] p [of 2 hh] p [of 2 mi] p [of 2 ss] p [of 6 us]
    by auto
qed

lemma isoformat_plain:
  "CHR ''='' \<notin> set (isoformat t)" "CHR 0x0A \<notin> set (isoformat t)" "CHR 0x0D \<notin> set (isoformat t)"
  using isoformat_chars [of t] by (auto simp: is_digit_def)

lemma isoformat_last: "isoformat t \<noteq> [] \<and> \<not> is_space (last (isoformat t))"
proof -
  obtain y m d hh mi ss us where t: "t = (y, m, d, hh, mi, ss, us)"
    by (cases t) auto
  have l2: "pad 2 n \<noteq> [] \<and> is_digit (last (pad 2 n))" for n
    by (simp add: numeral_2_eq_2 is_digit_digit_char)
  have l6: "pad 6 n \<noteq> [] \<and> is_digit (last (pad 6 n))" for n
    by (simp add: pad_numeral is_digit_digit_char)
  have d: "is_digit c \<Longrightarrow> \<not> is_space c" for c
    by (auto simp: is_digit_def is_space_def)
  show ?thesis
    unfolding t isoformat_def isoformat_sep.simps
    using l2 [of ss] l6 [of us] d by (auto simp del: pad.simps)
qed

section \<open>The watermark file\<close>

lemma get_watermark_read_log:
  "get_watermark file table_name =
     (case read_log file of
        Inl e \<Rightarrow> Inl e
      | Inr d \<Rightarrow> fromisoformat (case d table_name of None \<Rightarrow> ''1900-01-01'' | Some v \<Rightarrow> v))"
  by (cases "file") (simp_all add: get_watermark_def read_log_def fromisoformat_sentinel)

lemma update_watermark_written:
  "update_watermark Written file t (VTime ts) =
     (True, Some ((case file of None \<Rightarrow> [] | Some c \<Rightarrow> c) @ t @ CHR ''='' # isoformat ts @ [CHR 0x0A]))"
  by (simp add: update_watermark_def append_record_def record_line_def)

lemma read_log_empty: "read_log (Some []) = read_log None"
  by (simp add: read_log_def file_lines_def dict_of_lines_def)

lemma update_watermark_nothing:
  assumes "no_fragment oc" "oc \<noteq> Written"
  shows "read_log (snd (update_watermark oc file t (VTime ts))) = read_log file \<and>
         (complete_log file \<longrightarrow> complete_log (snd (update_watermark oc file t (VTime ts))))"
proof (cases oc)
  case Written
  with assms show ?thesis by simp
next
  case OpenFailed
  then show ?thesis by (simp add: update_watermark_def)
next
  case (Cut n)
  with assms have "n = 0" by simp
  then show ?thesis
    using Cut read_log_empty
    by (cases "file")
      (simp_all add: update_watermark_def append_record_def complete_log_def)
qed




lemma record_fields:
  assumes "plain_name t"
  shows "split_on CHR ''='' (strip (t @ CHR ''='' # isoformat ts @ [CHR 0x0A])) = [t, isoformat ts]"
proof -
  let ?s = "t @ CHR ''='' # isoformat ts"
  have hd: "\<not> is_space (hd ?s)"
    using assms by (cases t) (auto simp: plain_name_def is_space_def)
  have "last ?s = last (isoformat ts)"
    using isoformat_last [of ts] by simp
  then have "\<not> is_space (last ?s)"
    using isoformat_last [of ts] by simp
  then have "strip (?s @ [CHR 0x0A]) = ?s"
    using hd by (intro strip_line) auto
  moreover have "split_on CHR ''='' ?s = [t, isoformat ts]"
    using assms isoformat_plain(1) [of ts]
    by (simp add: plain_name_def split_on_append split_on_notin)
  ultimately show ?thesis by simp
qed

lemma read_log_update:
  assumes "complete_log file" "plain_name t"
  shows "read_log (snd (update_watermark Written file t (VTime ts))) =
           (case read_log file of Inl e \<Rightarrow> Inl e | Inr d \<Rightarrow> Inr (d(t \<mapsto> isoformat ts)))"
proof -
  let ?c = "case file of None \<Rightarrow> [] | Some c \<Rightarrow> c"
  let ?l = "t @ CHR ''='' # isoformat ts"
  have c: "?c = [] \<or> last ?c = CHR 0x0A"
    using assms(1) by (cases "file") (auto simp: complete_log_def)
  have l: "CHR 0x0A \<notin> set ?l" "CHR 0x0D \<notin> set ?l"
    using assms(2) isoformat_plain [of ts] by (auto simp: plain_name_def)
  have lines: "file_lines (?c @ t @ CHR ''='' # isoformat ts @ [CHR 0x0A]) =
      file_lines ?c @ [t @ CHR ''='' # isoformat ts @ [CHR 0x0A]]"
    using file_lines_append_line [OF c l] by simp
  have rl: "read_log file = dict_of_lines (file_lines ?c)"
    by (cases "file") (simp_all add: read_log_def file_lines_def dict_of_lines_def)
  show ?thesis
    unfolding update_watermark_written snd_conv rl
    by (simp add: read_log_def lines dict_of_lines_snoc record_fields [OF assms(2)]
        split: sum.splits)
qed

lemma complete_log_written:
  "complete_log (snd (update_watermark Written file t (VTime ts)))"
  by (simp add: update_watermark_written complete_log_def)

lemma apply_sets_snoc:
  "apply_sets file (ops @ [(t, ts, oc)]) = snd (update_watermark oc (apply_sets file ops) t (VTime ts))"
  by (simp add: apply_sets_def)

lemma last_set_snoc:
  "last_set (ops @ [(t, ts, oc)]) table_name =
     (if oc = Written \<and> t = table_name then ts else last_set ops table_name)"
  by (simp add: last_set_def)

lemma apply_sets_invariant:
  assumes "list_all (\<lambda>(t, ts, oc). plain_name t \<and> valid_datetime ts \<and> no_fragment oc) ops"
  shows "complete_log (apply_sets None ops) \<and>
         (\<exists>d. read_log (apply_sets None ops) = Inr d \<and>
              (\<forall>n. fromisoformat (case d n of None \<Rightarrow> ''1900-01-01'' | Some v \<Rightarrow> v) =
                   Inr (last_set ops n)))"
  using assms
proof (induction ops rule: rev_induct)
  case Nil
  show ?case
    by (simp add: apply_sets_def complete_log_def read_log_def last_set_def fromisoformat_sentinel)
next
  case (snoc op ops)
  obtain t ts oc where op: "op = (t, ts, oc)" by (cases op) auto
  from snoc.prems have pl: "plain_name t" and v: "valid_datetime ts" and nf: "no_fragment oc"
    and rest: "list_all (\<lambda>(t, ts, oc). plain_name t \<and> valid_datetime ts \<and> no_fragment oc) ops"
    by (simp_all add: op)
  from snoc.IH [OF rest] obtain d where
    cl: "complete_log (apply_sets None ops)" and
    d: "read_log (apply_sets None ops) = Inr d" and
    dd: "\<And>n. fromisoformat (case d n of None \<Rightarrow> ''1900-01-01'' | Some v \<Rightarrow> v) =
                   Inr (last_set ops n)"
    by blast
  show ?case
  proof (cases "oc = Written")
    case True
    have "read_log (apply_sets None (ops @ [op])) = Inr (d(t \<mapsto> isoformat ts))"
      unfolding op apply_sets_snoc using True read_log_update [OF cl pl, of ts] d by simp
    moreover have "fromisoformat (case (d(t \<mapsto> isoformat ts)) n of None \<Rightarrow> ''1900-01-01'' | Some v \<Rightarrow> v) =
                   Inr (last_set (ops @ [op]) n)" for n
      unfolding op last_set_snoc using True dd [of n] fromisoformat_isoformat [OF v] by simp
    moreover have "complete_log (apply_sets None (ops @ [op]))"
      unfolding op apply_sets_snoc True by (rule complete_log_written)
    ultimately show ?thesis by blast
  next
    case False
    from update_watermark_nothing [OF nf False, of "apply_sets None ops" t ts]
    show ?thesis
      unfolding op apply_sets_snoc last_set_snoc
      using cl d dd False by simp
  qed
qed

text \<open>
  C2. After any sequence of calls \<open>update_watermark(t, ts)\<close> on a file that did not
  exist, \<open>get_watermark(table)\<close> returns the timestamp of the last successful call for
  that table, or the sentinel 1900-01-01T00:00:00 when there was none, provided that every
  table written has a plain name and that no failed call left a part of its record in the
  file. Both provisos are needed: a name with an \<open>=\<close> in it gives a record of three
  fields, and every later read raises \<open>ValueError\<close>; so does a record cut inside the name,
  and a record cut after the date is read as that date at midnight.
\<close>

theorem get_watermark_last_write_wins:
  assumes "list_all (\<lambda>(t, ts, oc). plain_name t \<and> valid_datetime ts \<and> no_fragment oc) ops"
  shows "get_watermark (apply_sets None ops) table_name = Inr (last_set ops table_name)"
  using apply_sets_invariant [OF assms] by (auto simp: get_watermark_read_log)

lemmas log_eval = get_watermark_def update_watermark_def append_record_def record_line_def
  file_lines_def dict_of_lines_def strip_def is_space_def apply_sets_def last_set_def sentinel_def

theorem get_watermark_last_write_wins_witness:
  "list_all (\<lambda>(t, ts, oc). plain_name t \<and> valid_datetime ts \<and> no_fragment oc)
     [(''fact_sales'', (2024, 1, 15, 10, 0, 0, 0), Written),
      (''dim_date'', (2024, 3, 1, 0, 0, 0, 0), Written),
      (''fact_sales'', (2024, 2, 29, 23, 59, 59, 250000), Written),
      (''fact_sales'', (2024, 5, 1, 0, 0, 0, 0), OpenFailed),
      (''fact_sales'', (2024, 6, 1, 0, 0, 0, 0), Cut 0)] \<and>
   get_watermark
     (apply_sets None
        [(''fact_sales'', (2024, 1, 15, 10, 0, 0, 0), Written),
         (''dim_date'', (2024, 3, 1, 0, 0, 0, 0), Written),
         (''fact_sales'', (2024, 2, 29, 23, 59, 59, 250000), Written),
         (''fact_sales'', (2024, 5, 1, 0, 0, 0, 0), OpenFailed),
         (''fact_sales'', (2024, 6, 1, 0, 0, 0, 0), Cut 0)]) ''fact_sales'' =
     Inr (2024, 2, 29, 23, 59, 59, 250000) \<and>
   get_watermark
     (apply_sets None
        [(''fact_sales'', (2024, 1, 15, 10, 0, 0, 0), Written),
         (''dim_date'', (2024, 3, 1, 0, 0, 0, 0), Written),
         (''fact_sales'', (2024, 2, 29, 23, 59, 59, 250000), Written),
         (''fact_sales'', (2024, 5, 1, 0, 0, 0, 0), OpenFailed),
         (''fact_sales'', (2024, 6, 1, 0, 0, 0, 0), Cut 0)]) ''dim_product'' =
     Inr (1900, 1, 1, 0, 0, 0, 0)"
  using get_watermark_last_write_wins [of
      "[(''fact_sales'', (2024, 1, 15, 10, 0, 0, 0), Written),
        (''dim_date'', (2024, 3, 1, 0, 0, 0, 0), Written),
        (''fact_sales'', (2024, 2, 29, 23, 59, 59, 250000), Written),
        (''fact_sales'', (2024, 5, 1, 0, 0, 0, 0), OpenFailed),
        (''fact_sales'', (2024, 6, 1, 0, 0, 0, 0), Cut 0)]"]
  by (simp add: plain_name_def is_space_def days_in_month_def is_leap_def last_set_def sentinel_def)

theorem get_watermark_last_write_counterexample:
  "get_watermark (apply_sets None [(''a=b'', (2024, 1, 15, 10, 0, 0, 0), Written)]) ''a=b'' =
     Inl ValueError \<and>
   get_watermark
     (apply_sets None
        [(''fact_sales'', (2024, 1, 15, 10, 0, 0, 0), Written),
         (''fact_sales'', (2024, 3, 5, 10, 0, 0, 0), Cut 8)]) ''fact_sales'' = Inl ValueError \<and>
   get_watermark
     (apply_sets None
        [(''fact_sales'', (2024, 1, 15, 10, 0, 0, 0), Written),
         (''fact_sales'', (2024, 3, 5, 10, 0, 0, 0), Cut 21)]) ''fact_sales'' =
     Inr (2024, 3, 5, 0, 0, 0, 0)"
  by (simp add: apply_sets_def update_watermark_def append_record_def record_line_def
        isoformat_def text_eval)
     (simp add: get_watermark_def file_lines_def dict_of_lines_def strip_def is_space_def iso_eval)











section \<open>Columns of a frame\<close>

lemma index_of_None: "index_of x xs = None \<longleftrightarrow> x \<notin> set xs"
  by (induction xs) auto

lemma index_of_Some: "index_of x xs = Some i \<Longrightarrow> i < length xs \<and> xs ! i = x"
  by (induction xs arbitrary: i) (auto split: if_splits)

lemma index_of_mem: "x \<in> set xs \<Longrightarrow> \<exists>i. index_of x xs = Some i"
  using index_of_None [of x xs] by (cases "index_of x xs") auto

lemma index_of_append: "x \<in> set xs \<Longrightarrow> index_of x (xs @ ys) = index_of x xs"
  by (induction xs) auto

lemma index_of_inj: "index_of x xs = Some i \<Longrightarrow> index_of y xs = Some i \<Longrightarrow> x = y"
  using index_of_Some [of x xs i] index_of_Some [of y xs i] by simp


lemma columns_set_column:
  "columns (set_column d c vs) = (if c \<in> set (columns d) then columns d else columns d @ [c])"
  using index_of_None [of c "columns d"]
  by (auto simp: set_column_def split: option.splits)

lemma length_rows_set_column:
  "length vs = length (rows d) \<Longrightarrow> length (rows (set_column d c vs)) = length (rows d)"
  by (simp add: set_column_def split: option.splits)

lemma rect_set_column: "rect d \<Longrightarrow> rect (set_column d c vs)"
  by (auto simp: rect_def set_column_def list_all_iff split: option.splits dest: set_zip_leftD)

lemma map_zip_fst: "length vs = length rs \<Longrightarrow> map (\<lambda>(r, v). f r) (zip rs vs) = map f rs"
  by (induction rs vs rule: list_induct2') auto

lemma cell_snoc: "j < length r \<Longrightarrow> cell (r @ [v]) j = cell r j"
  by (simp add: cell_def nth_append)

lemma cell_update: "i \<noteq> j \<Longrightarrow> cell (r[i := v]) j = cell r j"
  by (simp add: cell_def)

lemma rows_cell_snoc:
  assumes "rect d" "j < length (columns d)"
  shows "map (\<lambda>r. cell r j) (map (\<lambda>(r, v). r @ [v]) (zip (rows d) vs)) =
         map (\<lambda>r. cell r j) (map fst (zip (rows d) vs))"
proof -
  have "cell (fst p @ [snd p]) j = cell (fst p) j" if "p \<in> set (zip (rows d) vs)" for p
  proof -
    obtain r v where p: "p = (r, v)" by (cases p)
    with that have "r \<in> set (rows d)"
      by (auto dest: set_zip_leftD)
    with assms(1) have "length r = length (columns d)"
      by (simp add: rect_def list_all_iff)
    with assms(2) show ?thesis by (simp add: cell_snoc p)
  qed
  then show ?thesis
    by (simp add: split_def)
qed

lemma rows_cell_update:
  assumes "i \<noteq> j"
  shows "map (\<lambda>r. cell r j) (map (\<lambda>(r, v). r[i := v]) (zip (rows d) vs)) =
         map (\<lambda>r. cell r j) (map fst (zip (rows d) vs))"
  using assms by (simp add: split_def cell_update)

lemma get_column_append:
  assumes "index_of c (columns d) = None" "index_of c' (columns d) = Some j" "rect d"
    "length vs = length (rows d)"
  shows "get_column (set_column d c vs) c' = get_column d c'"
proof -
  have m: "c' \<in> set (columns d)"
    using assms(2) index_of_None [of c' "columns d"] by auto
  have jl: "j < length (columns d)"
    using index_of_Some [OF assms(2)] by simp
  have "get_column (set_column d c vs) c' =
        Inr (map (\<lambda>r. cell r j) (map (\<lambda>(r, v). r @ [v]) (zip (rows d) vs)))"
    using assms(1,2) m by (simp add: get_column_def set_column_def index_of_append)
  also have "\<dots> = Inr (map (\<lambda>r. cell r j) (rows d))"
    unfolding rows_cell_snoc [OF assms(3) jl] using assms(4) by simp
  also have "\<dots> = get_column d c'"
    using assms(2) by (simp add: get_column_def)
  finally show ?thesis .
qed

lemma get_column_replace:
  assumes "index_of c (columns d) = Some i" "index_of c' (columns d) = Some j" "i \<noteq> j"
    "length vs = length (rows d)"
  shows "get_column (set_column d c vs) c' = get_column d c'"
proof -
  have "get_column (set_column d c vs) c' =
        Inr (map (\<lambda>r. cell r j) (map (\<lambda>(r, v). r[i := v]) (zip (rows d) vs)))"
    using assms(1,2) by (simp add: get_column_def set_column_def)
  also have "\<dots> = Inr (map (\<lambda>r. cell r j) (rows d))"
    unfolding rows_cell_update [OF assms(3)] using assms(4) by simp
  also have "\<dots> = get_column d c'"
    using assms(2) by (simp add: get_column_def)
  finally show ?thesis .
qed

lemma get_column_set_column_other:
  assumes "c' \<noteq> c" "rect d" "length vs = length (rows d)" "c' \<in> set (columns d)"
  shows "get_column (set_column d c vs) c' = get_column d c'"
proof -
  from index_of_mem [OF assms(4)] obtain j where j: "index_of c' (columns d) = Some j" ..
  show ?thesis
  proof (cases "index_of c (columns d)")
    case None
    then show ?thesis by (rule get_column_append [OF _ j assms(2,3)])
  next
    case (Some i)
    have "i \<noteq> j"
    proof
      assume ij: "i = j"
      have "c = c'"
        by (rule index_of_inj [OF Some j [folded ij]])
      with assms(1) show False by simp
    qed
    with Some show ?thesis by (rule get_column_replace [OF _ j _ assms(3)])
  qed
qed

lemma length_get_column: "get_column d c = Inr cs \<Longrightarrow> length cs = length (rows d)"
  by (auto simp: get_column_def split: option.splits)

lemma get_column_mem: "get_column d c = Inr cs \<Longrightarrow> c \<in> set (columns d)"
  using index_of_None [of c "columns d"] by (auto simp: get_column_def split: option.splits)

lemma coerce_column_shape:
  "columns (coerce_column E d c) = columns d \<and>
   length (rows (coerce_column E d c)) = length (rows d) \<and>
   (rect d \<longrightarrow> rect (coerce_column E d c))"
proof (cases "get_column d c")
  case (Inl e)
  then show ?thesis by (simp add: coerce_column_def)
next
  case (Inr cs)
  have "c \<in> set (columns d)"
    by (rule get_column_mem [OF Inr])
  moreover have "length cs = length (rows d)"
    by (rule length_get_column [OF Inr])
  ultimately show ?thesis
    using Inr
    by (simp add: coerce_column_def columns_set_column length_rows_set_column rect_set_column)
qed

lemma coerce_column_keeps:
  assumes "rect d" "get_column d k = Inr vals" "\<not> dtype_object vals"
  shows "get_column (coerce_column E d c) k = Inr vals"
proof (cases "get_column d c")
  case (Inl e)
  then show ?thesis using assms(2) by (simp add: coerce_column_def)
next
  case (Inr cs)
  show ?thesis
  proof (cases "c = k")
    case True
    with Inr assms(2,3) show ?thesis by (simp add: coerce_column_def)
  next
    case False
    have len: "length cs = length (rows d)"
      by (rule length_get_column [OF Inr])
    have "get_column (set_column d c (to_datetime E cs)) k = get_column d k"
      if "length (to_datetime E cs) = length cs"
      using False assms(1) that len get_column_mem [OF assms(2)]
      by (intro get_column_set_column_other) auto
    then show ?thesis
      using Inr assms(2) by (simp add: coerce_column_def)
  qed
qed

lemma foldl_coerce_shape:
  "columns (foldl (coerce_column E) d cs) = columns d \<and>
   length (rows (foldl (coerce_column E) d cs)) = length (rows d) \<and>
   (rect d \<longrightarrow> rect (foldl (coerce_column E) d cs))"
proof (induction cs arbitrary: d)
  case Nil
  show ?case by simp
next
  case (Cons c cs)
  show ?case
    using Cons.IH [of "coerce_column E d c"] coerce_column_shape [of E d c] by simp
qed

lemma foldl_coerce_keeps:
  assumes "rect d" "get_column d k = Inr vals" "\<not> dtype_object vals"
  shows "get_column (foldl (coerce_column E) d cs) k = Inr vals"
  using assms
proof (induction cs arbitrary: d)
  case Nil
  then show ?case by simp
next
  case (Cons c cs)
  have "rect (coerce_column E d c)"
    using coerce_column_shape [of E d c] Cons.prems(1) by simp
  moreover have "get_column (coerce_column E d c) k = Inr vals"
    by (rule coerce_column_keeps [OF Cons.prems])
  ultimately show ?case
    using Cons.IH [of "coerce_column E d c"] Cons.prems(3) by simp
qed

lemma columns_set_scalar:
  "set (columns (set_column d c vs)) = insert c (set (columns d))"
  by (auto simp: columns_set_column)

lemma transform_shape:
  assumes "distinct (map normalize_name (columns df))"
  shows "\<exists>dft. transform_for_synapse E df = Inr dft \<and>
           set (columns dft) = set (map normalize_name (columns df)) \<union>
             {''_ingestion_timestamp'', ''_source_system'', ''_migration_batch_id''} \<and>
           length (rows dft) = length (rows df)"
proof -
  let ?d1 = "df\<lparr>columns := map normalize_name (columns df)\<rparr>"
  let ?d2 = "foldl (coerce_column E) ?d1 (map normalize_name (columns df))"
  have c2: "columns ?d2 = map normalize_name (columns df)" and l2: "length (rows ?d2) = length (rows df)"
    using foldl_coerce_shape [of E ?d1 "map normalize_name (columns df)"] by simp_all
  show ?thesis
    using assms c2 l2
    by (simp add: transform_for_synapse_def Let_def columns_set_scalar length_rows_set_column
        insert_commute)
qed

lemma transform_keeps:
  assumes "wf_frame df" "distinct (map normalize_name (columns df))"
    and "get_column (df\<lparr>columns := map normalize_name (columns df)\<rparr>) k = Inr vals"
    and "\<not> dtype_object vals"
    and "k \<notin> {''_ingestion_timestamp'', ''_source_system'', ''_migration_batch_id''}"
  shows "\<exists>dft. transform_for_synapse E df = Inr dft \<and> get_column dft k = Inr vals"
proof -
  let ?cols = "map normalize_name (columns df)"
  let ?d1 = "df\<lparr>columns := ?cols\<rparr>"
  let ?d2 = "foldl (coerce_column E) ?d1 ?cols"
  let ?n = "length (rows ?d2)"
  let ?d3 = "set_column ?d2 ''_ingestion_timestamp'' (replicate ?n (VTime (utcnow_stamp E)))"
  let ?d4 = "set_column ?d3 ''_source_system'' (replicate ?n (VStr ''legacy_sql_server''))"
  let ?d5 = "set_column ?d4 ''_migration_batch_id'' (replicate ?n (VStr (batch_id (utcnow_batch E))))"
  have r1: "rect ?d1"
    using assms(1) by (simp add: wf_frame_def rect_def)
  have r2: "rect ?d2"
    using foldl_coerce_shape [of E ?d1 ?cols] r1 by simp
  have g2: "get_column ?d2 k = Inr vals"
    by (rule foldl_coerce_keeps [OF r1 assms(3,4)])
  have k2: "k \<in> set (columns ?d2)"
    by (rule get_column_mem [OF g2])
  have g3: "get_column ?d3 k = Inr vals"
    using assms(5) r2 k2 g2 by (subst get_column_set_column_other) auto
  have r3: "rect ?d3"
    by (rule rect_set_column [OF r2])
  have l3: "length (rows ?d3) = ?n"
    by (simp add: length_rows_set_column)
  have k3: "k \<in> set (columns ?d3)"
    by (rule get_column_mem [OF g3])
  have g4: "get_column ?d4 k = Inr vals"
    using assms(5) r3 k3 g3 l3 by (subst get_column_set_column_other) auto
  have r4: "rect ?d4"
    by (rule rect_set_column [OF r3])
  have l4: "length (rows ?d4) = ?n"
    using l3 by (simp add: length_rows_set_column)
  have k4: "k \<in> set (columns ?d4)"
    by (rule get_column_mem [OF g4])
  have g5: "get_column ?d5 k = Inr vals"
    using assms(5) r4 k4 g4 l4 by (subst get_column_set_column_other) auto
  have "transform_for_synapse E df = Inr ?d5"
    using assms(2) by (simp add: transform_for_synapse_def Let_def)
  with g5 show ?thesis by blast
qed

section \<open>The validators\<close>

text \<open>
  C4. The claim is that no validator changes its inputs. \<open>validate_schema\<close> and
  \<open>validate_nulls\<close> only read. \<open>validate_checksum\<close> assigns a \<open>checksum\<close> column to
  both frames: after validating two equal one-row frames, each has a third column.
  The stale column then enters the next fingerprint: the source frame that was just
  validated, compared with a fresh copy of the same data, is reported as a mismatch.
\<close>

theorem validate_checksum_changes_inputs:
  "validate_checksum I
      \<lparr>columns = [''id'', ''v''], rows = [[VInt 1, VInt 10]]\<rparr>
      \<lparr>columns = [''id'', ''v''], rows = [[VInt 1, VInt 10]]\<rparr> ''id'' =
     (True,
      \<lparr>columns = [''id'', ''v'', ''checksum''],
         rows = [[VInt 1, VInt 10, VInt 5512211802137524854]]\<rparr>,
      \<lparr>columns = [''id'', ''v'', ''checksum''],
         rows = [[VInt 1, VInt 10, VInt 5512211802137524854]]\<rparr>) \<and>
   fst (validate_checksum I
      \<lparr>columns = [''id'', ''v'', ''checksum''],
         rows = [[VInt 1, VInt 10, VInt 5512211802137524854]]\<rparr>
      \<lparr>columns = [''id'', ''v''], rows = [[VInt 1, VInt 10]]\<rparr> ''id'') = False"
  by (simp add: frame_eval hash_eval text_eval)

text \<open>
  C5. The claim is that every validator returns a boolean and never raises.
  \<open>validate_checksum\<close> turns every exception into \<open>False\<close>, and a key column that
  is missing gives \<open>False\<close>; \<open>validate_nulls\<close> has no handler, and a critical column
  that the frame lacks raises \<open>KeyError\<close>.
\<close>

theorem validate_nulls_missing_column_raises:
  "validate_nulls \<lparr>columns = [''id''], rows = [[VInt 1]]\<rparr> [''name''] = Inl KeyError \<and>
   fst (validate_checksum I \<lparr>columns = [''id''], rows = [[VInt 1]]\<rparr>
          \<lparr>columns = [''id''], rows = [[VInt 1]]\<rparr> ''name'') = False"
  by (simp add: validate_nulls_def frame_eval)

section \<open>migrate\_table\<close>

lemma extract_data_log: "extract_data E (log w es) table_name incremental = extract_data E w table_name incremental"
  by (simp add: extract_data_def log_def)

lemma log_simps:
  "watermark_file (log w es) = watermark_file w" "lake (log w es) = lake w"
  "trace (log w es) = trace w @ es"
  by (simp_all add: log_def)

lemma load_to_adls_bronze:
  "load_to_adls E w d t ''bronze'' =
     (case write_error E (bronze_path E t) d of
        Some e \<Rightarrow> (Inl e, w)
      | None \<Rightarrow>
          (Inr (bronze_path E t),
           log (w\<lparr>lake := (lake w)(bronze_path E t \<mapsto> d)\<rparr>) [EvLoaded (bronze_path E t)]))"
  by (simp only: load_to_adls_def bronze_path_def Let_def)

lemma advance_watermark_file:
  "watermark_file (snd (advance_watermark E w d t inc)) \<noteq> watermark_file w \<Longrightarrow>
     inc \<and> (\<exists>cs v. get_column d ''lastmodified'' = Inr cs \<and> series_max E cs = Inr v \<and>
        advance_watermark E w d t inc =
          (Inr (), log (w\<lparr>watermark_file := snd (update_watermark (watermark_write E) (watermark_file w) t v)\<rparr>)
             [if fst (update_watermark (watermark_write E) (watermark_file w) t v)
              then EvWatermarkUpdated else EvWatermarkFailed]))"
  by (auto simp: advance_watermark_def log_simps split: sum.splits prod.splits if_splits)

lemma migrate_table_changes_watermark:
  assumes "watermark_file (snd (migrate_table E w t inc)) \<noteq> watermark_file w"
  shows "connect_error E = None \<and> inc \<and>
     (\<exists>df dft cs v. extract_data E w t inc = Inr df \<and> rows df \<noteq> [] \<and>
        transform_for_synapse E df = Inr dft \<and>
        write_error E (bronze_path E t) dft = None \<and>
        get_column dft ''lastmodified'' = Inr cs \<and> series_max E cs = Inr v \<and>
        fst (migrate_table E w t inc) = Inr () \<and>
        watermark_file (snd (migrate_table E w t inc)) =
          snd (update_watermark (watermark_write E) (watermark_file w) t v))"
proof (cases "connect_error E")
  case (Some e)
  with assms show ?thesis by (simp add: migrate_table_def log_simps)
next
  case None
  show ?thesis
  proof (cases "extract_data E w t inc")
    case (Inl e)
    with assms None show ?thesis
      by (simp add: migrate_table_def Let_def extract_data_log log_simps)
  next
    case df: (Inr df)
    show ?thesis
    proof (cases "rows df = []")
      case True
      with assms None df show ?thesis
        by (simp add: migrate_table_def Let_def extract_data_log log_simps)
    next
      case ne: False
      show ?thesis
      proof (cases "transform_for_synapse E df")
        case (Inl e)
        with assms None df ne show ?thesis
          by (simp add: migrate_table_def Let_def extract_data_log log_simps)
      next
        case dft: (Inr dft)
        show ?thesis
        proof (cases "write_error E (bronze_path E t) dft")
          case (Some e)
          with assms None df ne dft show ?thesis
            by (simp add: migrate_table_def Let_def extract_data_log log_simps load_to_adls_bronze)
        next
          case wr: None
          let ?w3 = "log (log (log (log w [EvConnected]) [EvExtracted (length (rows df))]) [EvTransformed]\<lparr>lake := (lake w)(bronze_path E t \<mapsto> dft)\<rparr>) [EvLoaded (bronze_path E t)]"
          have mt: "migrate_table E w t inc =
            (case advance_watermark E ?w3 dft t inc of
               (Inl e, w4) \<Rightarrow> (Inl e, log w4 [EvFailed e, EvClosed])
             | (Inr u, w4) \<Rightarrow> (Inr (), log w4 [EvCompleted, EvClosed]))"
            using None df ne dft wr
            by (simp add: migrate_table_def Let_def extract_data_log log_simps load_to_adls_bronze)
          have w3: "watermark_file ?w3 = watermark_file w"
            by (simp add: log_simps log_def)
          have "watermark_file (snd (advance_watermark E ?w3 dft t inc)) \<noteq> watermark_file ?w3"
            using assms unfolding mt w3
            by (auto simp: log_simps split: prod.splits sum.splits)
          from advance_watermark_file [OF this] obtain cs v where
            inc: inc and cs: "get_column dft ''lastmodified'' = Inr cs" and v: "series_max E cs = Inr v"
            and adv: "advance_watermark E ?w3 dft t inc =
              (Inr (), log (?w3\<lparr>watermark_file := snd (update_watermark (watermark_write E) (watermark_file ?w3) t v)\<rparr>)
                 [if fst (update_watermark (watermark_write E) (watermark_file ?w3) t v)
                  then EvWatermarkUpdated else EvWatermarkFailed])"
            by blast
          have "fst (migrate_table E w t inc) = Inr ()"
            unfolding mt adv by simp
          moreover have "watermark_file (snd (migrate_table E w t inc)) =
              snd (update_watermark (watermark_write E) (watermark_file w) t v)"
            unfolding mt adv by (simp add: log_simps w3)
          ultimately show ?thesis
            using None inc df ne dft wr cs v by blast
        qed
      qed
    qed
  qed
qed

text \<open>
  C9. When the extraction returns a frame with no rows, \<open>migrate_table\<close> returns
  normally; the watermark file and the data lake are as before, and the run has logged
  the connection, the extraction of 0 rows, "no new data" and the close of the
  connection: neither the transformer, nor the loader, nor the watermark update ran.
\<close>

theorem migrate_table_zero_rows:
  assumes "connect_error E = None"
    and "extract_data E w table_name incremental = Inr df"
    and "rows df = []"
  shows "migrate_table E w table_name incremental =
           (Inr (), w\<lparr>trace := trace w @ [EvConnected, EvExtracted 0, EvNoNewData, EvClosed]\<rparr>)"
  using assms by (simp add: migrate_table_def Let_def extract_data_log) (simp add: log_def)

theorem migrate_table_zero_rows_witness:
  "connect_error (example_env (example_source [])) = None \<and>
   extract_data (example_env (example_source [])) empty_world ''fact_sales'' True =
     Inr \<lparr>columns = [''Id'', ''LastModified''], rows = []\<rparr> \<and>
   migrate_table (example_env (example_source [])) empty_world ''fact_sales'' True =
     (Inr (), empty_world\<lparr>trace := [EvConnected, EvExtracted 0, EvNoNewData, EvClosed]\<rparr>)"
  using migrate_table_zero_rows [of "example_env (example_source [])" empty_world "''fact_sales''"
      True "\<lparr>columns = [''Id'', ''LastModified''], rows = []\<rparr>"]
  by (simp add: example_env_def example_source_def empty_world_def extract_data_def
      get_watermark_def)

end
